theory Spec2Isabelle
  imports Complex_Main
begin

section \<open>Machine arithmetic of the benchmark programs\<close>

text \<open>
  The programs compute with \<^verbatim>\<open>int\<close> (\<^verbatim>\<open>lapack_int\<close>, \<^verbatim>\<open>rocblas_int\<close>: 32 bits, signed),
  \<^verbatim>\<open>size_t\<close> (64 bits, unsigned) and \<^verbatim>\<open>rocblas_stride\<close> (64 bits, signed).
  Values are modelled by their mathematical value (\<open>int\<close>, and \<open>nat\<close> for \<^verbatim>\<open>size_t\<close>);
  unsigned arithmetic wraps modulo \<open>2 ^ 64\<close>, written out; a signed operation whose
  result does not fit its type is undefined behaviour in C++ and ends the model's run
  with \<open>Inl SignedOverflow\<close>; an access outside an allocated buffer ends it with
  \<open>Inl OutOfBounds\<close>.
\<close>

datatype ub = SignedOverflow | OutOfBounds

definition int_ok :: "int \<Rightarrow> bool" where
  "int_ok x \<longleftrightarrow> - (2 ^ 31) \<le> x \<and> x < 2 ^ 31"

definition int64_ok :: "int \<Rightarrow> bool" where
  "int64_ok x \<longleftrightarrow> - (2 ^ 63) \<le> x \<and> x < 2 ^ 63"

text \<open>Conversion of a signed value to \<^verbatim>\<open>size_t\<close>: \<^verbatim>\<open>(size_t)x\<close>.\<close>

definition to_size_t :: "int \<Rightarrow> nat" where
  "to_size_t x = nat (x mod 2 ^ 64)"

definition mul_size_t :: "nat \<Rightarrow> nat \<Rightarrow> nat" where
  "mul_size_t a b = (a * b) mod 2 ^ 64"

definition add_size_t :: "nat \<Rightarrow> nat \<Rightarrow> nat" where
  "add_size_t a b = (a + b) mod 2 ^ 64"

text \<open>\<^verbatim>\<open>a * b\<close> and \<^verbatim>\<open>a + b\<close> on \<^verbatim>\<open>int\<close>.\<close>

definition mul_int :: "int \<Rightarrow> int \<Rightarrow> ub + int" where
  "mul_int a b = (if int_ok (a * b) then Inr (a * b) else Inl SignedOverflow)"

definition add_int :: "int \<Rightarrow> int \<Rightarrow> ub + int" where
  "add_int a b = (if int_ok (a + b) then Inr (a + b) else Inl SignedOverflow)"

section \<open>Argument handling and buffer sizes\<close>

text \<open>
  The part of the command line that all programs share. \<open>stride = None\<close> is
  \<^verbatim>\<open>program.present("--stride")\<close> being empty. The eigensolver programs have one
  dimension \<^verbatim>\<open>--size\<close>, which is then both \<open>rows\<close> and \<open>cols\<close>.
\<close>

record bench_args =
  rows :: int
  cols :: int
  lda_arg :: int
  stride :: "int option"
  batch_count :: int
  random_seed :: int
  iterations :: int
  warmup_time :: int

text \<open>
  The values \<^verbatim>\<open>program.get<int>\<close> returns are \<^verbatim>\<open>int\<close>s: \<open>args_ok\<close> says that each
  field is in the range of the type.
\<close>

definition args_ok :: "bench_args \<Rightarrow> bool" where
  "args_ok a \<longleftrightarrow>
     int_ok (rows a) \<and> int_ok (cols a) \<and> int_ok (lda_arg a) \<and>
     (case stride a of None \<Rightarrow> True | Some s \<Rightarrow> int_ok s) \<and>
     int_ok (batch_count a) \<and> int_ok (random_seed a) \<and>
     int_ok (iterations a) \<and> int_ok (warmup_time a)"

text \<open>\<^verbatim>\<open>if (lda < M) lda = M;\<close>\<close>

definition clamp_lda :: "int \<Rightarrow> int \<Rightarrow> int" where
  "clamp_lda M lda = (if lda < M then M else lda)"

text \<open>
  \<^verbatim>\<open>size_t strideA; if (program.present("--stride")) strideA = program.get<int>("--stride");
  else strideA = lda * N;\<close> in the OpenBLAS programs: the right-hand sides are \<^verbatim>\<open>int\<close>s,
  converted to \<^verbatim>\<open>size_t\<close> by the assignment.
\<close>

definition strideA_size_t :: "int option \<Rightarrow> int \<Rightarrow> int \<Rightarrow> ub + nat" where
  "strideA_size_t st lda N =
     (case st of
        Some s \<Rightarrow> Inr (to_size_t s)
      | None \<Rightarrow> (case mul_int lda N of Inl e \<Rightarrow> Inl e | Inr p \<Rightarrow> Inr (to_size_t p)))"

text \<open>The same lines in the rocSOLVER programs, where \<^verbatim>\<open>strideA\<close> is a \<^verbatim>\<open>rocblas_stride\<close>.\<close>

definition strideA_int64 :: "int option \<Rightarrow> int \<Rightarrow> int \<Rightarrow> ub + int" where
  "strideA_int64 st lda N =
     (case st of
        Some s \<Rightarrow> Inr s
      | None \<Rightarrow> mul_int lda N)"

text \<open>
  The lines every strided program has after reading its arguments: the clamp of
  \<^verbatim>\<open>lda\<close>, the stride, and \<^verbatim>\<open>size_t size_A = strideA * (size_t)batch_count;\<close>. \<open>M\<close> is the
  dimension \<^verbatim>\<open>lda\<close> is compared with (\<^verbatim>\<open>N\<close> in the eigensolver programs).
\<close>

record openblas_layout =
  ol_lda :: int
  ol_strideA :: nat
  ol_size_A :: nat

definition openblas_strided_layout ::
  "int \<Rightarrow> int \<Rightarrow> int \<Rightarrow> int option \<Rightarrow> int \<Rightarrow> ub + openblas_layout" where
  "openblas_strided_layout M N lda0 st bc =
     (let lda = clamp_lda M lda0
      in (case strideA_size_t st lda N of
            Inl e \<Rightarrow> Inl e
          | Inr strideA \<Rightarrow>
              Inr \<lparr> ol_lda = lda, ol_strideA = strideA,
                    ol_size_A = mul_size_t strideA (to_size_t bc) \<rparr>))"

record rocsolver_layout =
  rl_lda :: int
  rl_strideA :: int
  rl_size_A :: nat

definition rocsolver_strided_layout ::
  "int \<Rightarrow> int \<Rightarrow> int \<Rightarrow> int option \<Rightarrow> int \<Rightarrow> ub + rocsolver_layout" where
  "rocsolver_strided_layout M N lda0 st bc =
     (let lda = clamp_lda M lda0
      in (case strideA_int64 st lda N of
            Inl e \<Rightarrow> Inl e
          | Inr strideA \<Rightarrow>
              Inr \<lparr> rl_lda = lda, rl_strideA = strideA,
                    rl_size_A = mul_size_t (to_size_t strideA) (to_size_t bc) \<rparr>))"

subsection \<open>The SVD programs\<close>

text \<open>The \<^verbatim>\<open>default_value\<close>s of both SVD programs; \<^verbatim>\<open>--stride\<close> has none.\<close>

definition sgesvdj_defaults :: bench_args where
  "sgesvdj_defaults =
     \<lparr> rows = 10, cols = 8, lda_arg = 10, stride = None, batch_count = 2,
       random_seed = 42, iterations = 10, warmup_time = 1000 \<rparr>"

text \<open>
  \<^verbatim>\<open>bench_openblas_sgesvdj_strided_batched.cpp\<close>, \<^verbatim>\<open>main\<close>, from reading the arguments
  to the sizes of the arrays. \<open>left\<close> and \<open>right\<close> are the strings given to
  \<^verbatim>\<open>--left-svect\<close> and \<^verbatim>\<open>--right-svect\<close>.
\<close>

definition parse_job :: "string \<Rightarrow> char" where
  "parse_job s =
     (if s = ''none'' then CHR ''N''
      else if s = ''singular'' then CHR ''S''
      else CHR ''A'')"

record openblas_svd =
  ob_layout :: openblas_layout
  ob_jobu :: char
  ob_jobvt :: char
  ob_min_mn :: int
  ob_strideS :: nat
  ob_size_S :: nat
  ob_ldu :: int
  ob_ldvt :: int
  ob_strideU :: nat
  ob_strideVT :: nat
  ob_size_U :: nat
  ob_size_VT :: nat

definition openblas_sgesvdj_sizes :: "bench_args \<Rightarrow> string \<Rightarrow> string \<Rightarrow> ub + openblas_svd" where
  "openblas_sgesvdj_sizes a left right =
     (let M = rows a; N = cols a
      in (case openblas_strided_layout M N (lda_arg a) (stride a) (batch_count a) of
           Inl e \<Rightarrow> Inl e
         | Inr lay \<Rightarrow>
            (let jobu = parse_job left;
                 jobvt = parse_job right;
                 min_mn = (if M < N then M else N);
                 strideS = to_size_t min_mn;
                 size_S = mul_size_t strideS (to_size_t (batch_count a));
                 ldu = (if jobu = CHR ''N'' then 1 else M);
                 ldvt = (if jobvt = CHR ''N'' then 1 else N)
             in (case (if jobu = CHR ''N'' then Inr 1
                      else mul_int ldu (if jobu = CHR ''A'' then M else min_mn)) of
                  Inl e \<Rightarrow> Inl e
                | Inr su \<Rightarrow>
                   (case (if jobvt = CHR ''N'' then Inr 1 else mul_int ldvt N) of
                      Inl e \<Rightarrow> Inl e
                    | Inr sv \<Rightarrow>
                        Inr \<lparr> ob_layout = lay, ob_jobu = jobu, ob_jobvt = jobvt,
                              ob_min_mn = min_mn, ob_strideS = strideS, ob_size_S = size_S,
                              ob_ldu = ldu, ob_ldvt = ldvt,
                              ob_strideU = to_size_t su, ob_strideVT = to_size_t sv,
                              ob_size_U = mul_size_t (to_size_t su) (to_size_t (batch_count a)),
                              ob_size_VT = mul_size_t (to_size_t sv) (to_size_t (batch_count a)) \<rparr>)))))"

text \<open>
  \<^verbatim>\<open>bench_rocsolver_sgesvdj_strided_batched.cpp\<close>, \<^verbatim>\<open>main\<close>: the same part, with the
  \<^verbatim>\<open>rocblas_svect\<close> enumeration and signed 64-bit strides.
\<close>

datatype rocblas_svect = rocblas_svect_none | rocblas_svect_singular | rocblas_svect_all

definition parse_svect :: "string \<Rightarrow> rocblas_svect" where
  "parse_svect s =
     (if s = ''none'' then rocblas_svect_none
      else if s = ''singular'' then rocblas_svect_singular
      else rocblas_svect_all)"

record rocsolver_svd =
  rs_layout :: rocsolver_layout
  rs_left_svect :: rocblas_svect
  rs_right_svect :: rocblas_svect
  rs_min_mn :: int
  rs_strideS :: int
  rs_size_S :: nat
  rs_size_info :: nat
  rs_ldu :: int
  rs_ldv :: int
  rs_strideU :: int
  rs_strideV :: int
  rs_size_U :: nat
  rs_size_V :: nat

definition rocsolver_sgesvdj_sizes :: "bench_args \<Rightarrow> string \<Rightarrow> string \<Rightarrow> ub + rocsolver_svd" where
  "rocsolver_sgesvdj_sizes a left right =
     (let M = rows a; N = cols a
      in (case rocsolver_strided_layout M N (lda_arg a) (stride a) (batch_count a) of
           Inl e \<Rightarrow> Inl e
         | Inr lay \<Rightarrow>
            (let left_svect = parse_svect left;
                 right_svect = parse_svect right;
                 min_mn = (if M < N then M else N);
                 strideS = min_mn;
                 size_S = mul_size_t (to_size_t strideS) (to_size_t (batch_count a));
                 size_info = to_size_t (batch_count a);
                 ldu = (if left_svect = rocblas_svect_none then 1 else M);
                 ldv = (if right_svect = rocblas_svect_none then 1
                        else if right_svect = rocblas_svect_singular then min_mn else N)
             in (case (if left_svect = rocblas_svect_none then Inr 1
                      else if left_svect = rocblas_svect_singular then mul_int ldu min_mn
                      else mul_int ldu M) of
                  Inl e \<Rightarrow> Inl e
                | Inr su \<Rightarrow>
                   (case (if right_svect = rocblas_svect_none then Inr 1 else mul_int ldv N) of
                      Inl e \<Rightarrow> Inl e
                    | Inr sv \<Rightarrow>
                        Inr \<lparr> rs_layout = lay,
                              rs_left_svect = left_svect, rs_right_svect = right_svect,
                              rs_min_mn = min_mn, rs_strideS = strideS,
                              rs_size_S = size_S, rs_size_info = size_info,
                              rs_ldu = ldu, rs_ldv = ldv, rs_strideU = su, rs_strideV = sv,
                              rs_size_U = mul_size_t (to_size_t su) (to_size_t (batch_count a)),
                              rs_size_V = mul_size_t (to_size_t sv) (to_size_t (batch_count a)) \<rparr>)))))"

section \<open>Matrix generators\<close>

text \<open>
  The generators draw from \<^verbatim>\<open>std::mt19937 gen(random_seed)\<close> through a
  \<^verbatim>\<open>std::uniform_real_distribution\<close>. Both belong to the C++ standard library, not to the
  repository, and are parameters of the model: \<open>engine\<close> builds the state of the engine
  from the seed, \<open>draw\<close> is one call \<^verbatim>\<open>dis(gen)\<close> (the value and the next state) and
  \<open>times10\<close> is \<^verbatim>\<open>x * 10.0\<close> stored back into a \<^verbatim>\<open>float\<close>. \<open>'v\<close> is the type of the
  elements (a \<^verbatim>\<open>float\<close> or a \<^verbatim>\<open>double\<close>), \<open>'g\<close> the state of the engine.
\<close>

record ('g, 'v) rng =
  engine :: "int \<Rightarrow> 'g"
  draw :: "'g \<Rightarrow> 'v \<times> 'g"
  times10 :: "'v \<Rightarrow> 'v"

text \<open>
  A buffer is the list of its elements. \<^verbatim>\<open>malloc\<close> does not initialise: the content of
  a fresh buffer is whatever the memory held, the parameter \<open>garbage\<close>. The model takes
  every allocation to succeed. \<open>alloc_elems esz strideA bc\<close> is the number of elements of
  \<open>esz\<close> bytes that \<^verbatim>\<open>malloc(sizeof(T) * strideA * batch_count)\<close> provides; the product is
  computed in \<^verbatim>\<open>size_t\<close>.
\<close>

definition malloc :: "nat \<Rightarrow> (nat \<Rightarrow> 'v) \<Rightarrow> 'v list" where
  "malloc n garbage = map garbage [0..<n]"

definition alloc_elems :: "nat \<Rightarrow> nat \<Rightarrow> int \<Rightarrow> nat" where
  "alloc_elems esz strideA bc = mul_size_t (mul_size_t esz strideA) (to_size_t bc) div esz"

text \<open>\<^verbatim>\<open>hA[k] = v\<close>: a write outside the buffer is undefined behaviour.\<close>

definition store :: "'v list \<Rightarrow> nat \<Rightarrow> 'v \<Rightarrow> ub + 'v list" where
  "store hA k v = (if k < length hA then Inr (hA[k := v]) else Inl OutOfBounds)"

definition write_elem :: "ub + nat \<Rightarrow> 'v \<Rightarrow> 'v list \<Rightarrow> ub + 'v list" where
  "write_elem idx v hA = (case idx of Inl e \<Rightarrow> Inl e | Inr k \<Rightarrow> store hA k v)"

text \<open>
  The index \<^verbatim>\<open>i + j * lda + b * strideA\<close>. In the OpenBLAS programs \<^verbatim>\<open>strideA\<close> is a
  \<^verbatim>\<open>size_t\<close>: \<^verbatim>\<open>i + j * lda\<close> is computed in \<^verbatim>\<open>int\<close>, \<^verbatim>\<open>b * strideA\<close> and the sum in
  \<^verbatim>\<open>size_t\<close>. In the rocSOLVER programs it is a \<^verbatim>\<open>rocblas_stride\<close>: \<^verbatim>\<open>b * strideA\<close> and the
  sum are signed 64-bit values, and a negative index is outside the buffer.
\<close>

definition index_size_t :: "int \<Rightarrow> int \<Rightarrow> int \<Rightarrow> int \<Rightarrow> nat \<Rightarrow> ub + nat" where
  "index_size_t i j lda b strideA =
     (case mul_int j lda of
        Inl e \<Rightarrow> Inl e
      | Inr jl \<Rightarrow>
         (case add_int i jl of
            Inl e \<Rightarrow> Inl e
          | Inr p \<Rightarrow> Inr (add_size_t (to_size_t p) (mul_size_t (to_size_t b) strideA))))"

definition index_int64 :: "int \<Rightarrow> int \<Rightarrow> int \<Rightarrow> int \<Rightarrow> int \<Rightarrow> ub + nat" where
  "index_int64 i j lda b strideA =
     (case mul_int j lda of
        Inl e \<Rightarrow> Inl e
      | Inr jl \<Rightarrow>
         (case add_int i jl of
            Inl e \<Rightarrow> Inl e
          | Inr p \<Rightarrow>
             (if int64_ok (b * strideA) \<and> int64_ok (p + b * strideA)
              then (if 0 \<le> p + b * strideA then Inr (nat (p + b * strideA))
                    else Inl OutOfBounds)
              else Inl SignedOverflow)))"

text \<open>
  A \<^verbatim>\<open>for\<close> loop over the values \<open>ks\<close> of its counter; the body may end the run.
\<close>

fun for_loop :: "nat list \<Rightarrow> (nat \<Rightarrow> 's \<Rightarrow> ub + 's) \<Rightarrow> 's \<Rightarrow> ub + 's" where
  "for_loop [] body s = Inr s"
| "for_loop (k # ks) body s =
     (case body k s of Inl e \<Rightarrow> Inl e | Inr s' \<Rightarrow> for_loop ks body s')"

text \<open>
  The bodies of the loops, on the buffer and the state of the engine.
  \<open>gen_elem\<close>: \<^verbatim>\<open>hA[idx] = dis(gen);\<close>.
  \<open>sym_diag\<close>: \<^verbatim>\<open>hA[idx] = dis(gen) * 10.0;\<close>.
  \<open>sym_pair\<close>: \<^verbatim>\<open>float value = dis(gen); hA[idx1] = value; hA[idx2] = value;\<close>.
\<close>

definition gen_elem :: "ub + nat \<Rightarrow> ('g \<Rightarrow> 'v \<times> 'g) \<Rightarrow> 'v list \<times> 'g \<Rightarrow> ub + 'v list \<times> 'g" where
  "gen_elem idx dis s =
     (case write_elem idx (fst (dis (snd s))) (fst s) of
        Inl e \<Rightarrow> Inl e
      | Inr hA \<Rightarrow> Inr (hA, snd (dis (snd s))))"

definition sym_diag ::
  "ub + nat \<Rightarrow> ('g \<Rightarrow> 'v \<times> 'g) \<Rightarrow> ('v \<Rightarrow> 'v) \<Rightarrow> 'v list \<times> 'g \<Rightarrow> ub + 'v list \<times> 'g" where
  "sym_diag idx dis t10 s =
     (case write_elem idx (t10 (fst (dis (snd s)))) (fst s) of
        Inl e \<Rightarrow> Inl e
      | Inr hA \<Rightarrow> Inr (hA, snd (dis (snd s))))"

definition sym_pair ::
  "ub + nat \<Rightarrow> ub + nat \<Rightarrow> ('g \<Rightarrow> 'v \<times> 'g) \<Rightarrow> 'v list \<times> 'g \<Rightarrow> ub + 'v list \<times> 'g" where
  "sym_pair idx1 idx2 dis s =
     (case write_elem idx1 (fst (dis (snd s))) (fst s) of
        Inl e \<Rightarrow> Inl e
      | Inr h1 \<Rightarrow>
         (case write_elem idx2 (fst (dis (snd s))) h1 of
            Inl e \<Rightarrow> Inl e
          | Inr h2 \<Rightarrow> Inr (h2, snd (dis (snd s)))))"

text \<open>
  The loop nest of the general generators
  (\<^verbatim>\<open>create_matrices_for_sgesvdj_strided_batched\<close>, \<^verbatim>\<open>create_example_matrices\<close>):
  \<^verbatim>\<open>for b < batch_count: for i < M: for j < N: hA[i + j * lda + b * strideA] = dis(gen);\<close>
  with the index computation \<open>idx b i j\<close> of the program.
\<close>

definition fill_general ::
  "(nat \<Rightarrow> nat \<Rightarrow> nat \<Rightarrow> ub + nat) \<Rightarrow> ('g \<Rightarrow> 'v \<times> 'g) \<Rightarrow> int \<Rightarrow> int \<Rightarrow> int \<Rightarrow>
     'v list \<times> 'g \<Rightarrow> ub + 'v list \<times> 'g" where
  "fill_general idx dis bc M N =
     for_loop [0..<nat bc] (\<lambda>b.
       for_loop [0..<nat M] (\<lambda>i.
         for_loop [0..<nat N] (\<lambda>j. gen_elem (idx b i j) dis)))"

text \<open>
  The loop nest of the symmetric generators (\<^verbatim>\<open>create_matrices\<close>,
  \<^verbatim>\<open>create_symmetric_matrices\<close>): for every row \<open>i\<close> the diagonal element, then for
  \<open>j = i + 1, ..., N - 1\<close> one draw written to \<open>(i, j)\<close> and to \<open>(j, i)\<close>.
\<close>

definition fill_symmetric ::
  "(nat \<Rightarrow> nat \<Rightarrow> nat \<Rightarrow> ub + nat) \<Rightarrow> ('g \<Rightarrow> 'v \<times> 'g) \<Rightarrow> ('v \<Rightarrow> 'v) \<Rightarrow> int \<Rightarrow> int \<Rightarrow>
     'v list \<times> 'g \<Rightarrow> ub + 'v list \<times> 'g" where
  "fill_symmetric idx dis t10 bc N =
     for_loop [0..<nat bc] (\<lambda>b.
       for_loop [0..<nat N] (\<lambda>i s.
         (case sym_diag (idx b i i) dis t10 s of
            Inl e \<Rightarrow> Inl e
          | Inr s1 \<Rightarrow>
              for_loop [Suc i..<nat N] (\<lambda>j. sym_pair (idx b i j) (idx b j i) dis) s1)))"

definition returned_buffer :: "ub + 'v list \<times> 'g \<Rightarrow> ub + 'v list" where
  "returned_buffer r = (case r of Inl e \<Rightarrow> Inl e | Inr s \<Rightarrow> Inr (fst s))"

text \<open>\<^verbatim>\<open>bench_openblas_sgesvdj_strided_batched.cpp\<close>: \<^verbatim>\<open>float\<close> elements, \<^verbatim>\<open>size_t strideA\<close>.\<close>

definition create_matrices_for_sgesvdj_strided_batched_openblas ::
  "('g, 'v) rng \<Rightarrow> (nat \<Rightarrow> 'v) \<Rightarrow> int \<Rightarrow> int \<Rightarrow> int \<Rightarrow> nat \<Rightarrow> int \<Rightarrow> int \<Rightarrow> ub + 'v list" where
  "create_matrices_for_sgesvdj_strided_batched_openblas r garbage M N lda strideA bc seed =
     returned_buffer
       (fill_general (\<lambda>b i j. index_size_t (int i) (int j) lda (int b) strideA) (draw r) bc M N
          (malloc (alloc_elems 4 strideA bc) garbage, engine r seed))"

text \<open>\<^verbatim>\<open>bench_rocsolver_sgesvdj_strided_batched.cpp\<close>: \<^verbatim>\<open>float\<close>, \<^verbatim>\<open>rocblas_stride strideA\<close>.\<close>

definition create_matrices_for_sgesvdj_strided_batched_rocsolver ::
  "('g, 'v) rng \<Rightarrow> (nat \<Rightarrow> 'v) \<Rightarrow> int \<Rightarrow> int \<Rightarrow> int \<Rightarrow> int \<Rightarrow> int \<Rightarrow> int \<Rightarrow> ub + 'v list" where
  "create_matrices_for_sgesvdj_strided_batched_rocsolver r garbage M N lda strideA bc seed =
     returned_buffer
       (fill_general (\<lambda>b i j. index_int64 (int i) (int j) lda (int b) strideA) (draw r) bc M N
          (malloc (alloc_elems 4 (to_size_t strideA) bc) garbage, engine r seed))"

text \<open>\<^verbatim>\<open>bench_rocsolver_dgeqrf_strided_batched.cpp\<close>: \<^verbatim>\<open>double\<close>, \<^verbatim>\<open>rocblas_stride strideA\<close>.\<close>

definition create_example_matrices_strided ::
  "('g, 'v) rng \<Rightarrow> (nat \<Rightarrow> 'v) \<Rightarrow> int \<Rightarrow> int \<Rightarrow> int \<Rightarrow> int \<Rightarrow> int \<Rightarrow> int \<Rightarrow> ub + 'v list" where
  "create_example_matrices_strided r garbage M N lda strideA bc seed =
     returned_buffer
       (fill_general (\<lambda>b i j. index_int64 (int i) (int j) lda (int b) strideA) (draw r) bc M N
          (malloc (alloc_elems 8 (to_size_t strideA) bc) garbage, engine r seed))"

text \<open>\<^verbatim>\<open>bench_openblas_ssyev.cpp\<close>: symmetric, \<^verbatim>\<open>float\<close>, \<^verbatim>\<open>size_t strideA\<close>.\<close>

definition create_matrices ::
  "('g, 'v) rng \<Rightarrow> (nat \<Rightarrow> 'v) \<Rightarrow> int \<Rightarrow> int \<Rightarrow> nat \<Rightarrow> int \<Rightarrow> int \<Rightarrow> ub + 'v list" where
  "create_matrices r garbage N lda strideA bc seed =
     returned_buffer
       (fill_symmetric (\<lambda>b i j. index_size_t (int i) (int j) lda (int b) strideA)
          (draw r) (times10 r) bc N
          (malloc (alloc_elems 4 strideA bc) garbage, engine r seed))"

text \<open>\<^verbatim>\<open>bench_rocsolver_ssyevj_strided_batched.cpp\<close>: symmetric, \<^verbatim>\<open>float\<close>, \<^verbatim>\<open>rocblas_stride\<close>.\<close>

definition create_symmetric_matrices ::
  "('g, 'v) rng \<Rightarrow> (nat \<Rightarrow> 'v) \<Rightarrow> int \<Rightarrow> int \<Rightarrow> int \<Rightarrow> int \<Rightarrow> int \<Rightarrow> ub + 'v list" where
  "create_symmetric_matrices r garbage N lda strideA bc seed =
     returned_buffer
       (fill_symmetric (\<lambda>b i j. index_int64 (int i) (int j) lda (int b) strideA)
          (draw r) (times10 r) bc N
          (malloc (alloc_elems 4 (to_size_t strideA) bc) garbage, engine r seed))"




definition openblas_ssyev_hA :: "('g, 'v) rng \<Rightarrow> (nat \<Rightarrow> 'v) \<Rightarrow> bench_args \<Rightarrow> ub + 'v list" where
  "openblas_ssyev_hA r garbage a =
     (case openblas_strided_layout (cols a) (cols a) (lda_arg a) (stride a) (batch_count a) of
        Inl e \<Rightarrow> Inl e
      | Inr lay \<Rightarrow>
          create_matrices r garbage (cols a) (ol_lda lay) (ol_strideA lay)
            (batch_count a) (random_seed a))"

definition rocsolver_ssyevj_hA :: "('g, 'v) rng \<Rightarrow> (nat \<Rightarrow> 'v) \<Rightarrow> bench_args \<Rightarrow> ub + 'v list" where
  "rocsolver_ssyevj_hA r garbage a =
     (case rocsolver_strided_layout (cols a) (cols a) (lda_arg a) (stride a) (batch_count a) of
        Inl e \<Rightarrow> Inl e
      | Inr lay \<Rightarrow>
          create_symmetric_matrices r garbage (cols a) (rl_lda lay) (rl_strideA lay)
            (batch_count a) (random_seed a))"

text \<open>
  A stand-in for the engine, to run the model on concrete inputs: the state is a counter
  started at the seed, a draw returns the counter, and \<open>times10\<close> multiplies by ten. The
  fresh memory holds zeros.
\<close>

definition counter_rng :: "(int, int) rng" where
  "counter_rng = \<lparr> engine = (\<lambda>seed. seed), draw = (\<lambda>g. (g, g + 1)), times10 = (\<lambda>v. 10 * v) \<rparr>"

definition zero_garbage :: "nat \<Rightarrow> int" where
  "zero_garbage k = 0"

text \<open>Two 2 by 2 matrices with the default stride, for the eigensolver programs.\<close>

definition eigen_example :: bench_args where
  "eigen_example =
     \<lparr> rows = 2, cols = 2, lda_arg = 2, stride = None, batch_count = 2,
       random_seed = 42, iterations = 1, warmup_time = 0 \<rparr>"

subsection \<open>The sequence of writes of a generator\<close>

text \<open>
  For the proofs: the writes of a loop nest as a list of events (the computed index and
  the value), which depends on the arguments and the state of the engine but not on the
  buffer; \<open>replay\<close> performs them. \<open>fill_general\<close> and \<open>fill_symmetric\<close> are shown below
  to replay \<open>general_trace\<close> and \<open>symmetric_trace\<close>.
\<close>

type_synonym 'v event = "(ub + nat) \<times> 'v"

fun replay :: "'v event list \<Rightarrow> 'v list \<Rightarrow> ub + 'v list" where
  "replay [] h = Inr h"
| "replay (e # es) h =
     (case write_elem (fst e) (snd e) h of Inl x \<Rightarrow> Inl x | Inr h' \<Rightarrow> replay es h')"

definition run_trace :: "('g \<Rightarrow> 'v event list \<times> 'g) \<Rightarrow> 'v list \<times> 'g \<Rightarrow> ub + 'v list \<times> 'g" where
  "run_trace t s =
     (case replay (fst (t (snd s))) (fst s) of
        Inl e \<Rightarrow> Inl e
      | Inr h \<Rightarrow> Inr (h, snd (t (snd s))))"

fun seq_trace :: "nat list \<Rightarrow> (nat \<Rightarrow> 'g \<Rightarrow> 'v event list \<times> 'g) \<Rightarrow> 'g \<Rightarrow> 'v event list \<times> 'g" where
  "seq_trace [] t g = ([], g)"
| "seq_trace (k # ks) t g =
     (fst (t k g) @ fst (seq_trace ks t (snd (t k g))), snd (seq_trace ks t (snd (t k g))))"

definition then_trace ::
  "('g \<Rightarrow> 'v event list \<times> 'g) \<Rightarrow> ('g \<Rightarrow> 'v event list \<times> 'g) \<Rightarrow> 'g \<Rightarrow> 'v event list \<times> 'g" where
  "then_trace t1 t2 g = (fst (t1 g) @ fst (t2 (snd (t1 g))), snd (t2 (snd (t1 g))))"

definition elem_trace :: "ub + nat \<Rightarrow> ('g \<Rightarrow> 'v \<times> 'g) \<Rightarrow> 'g \<Rightarrow> 'v event list \<times> 'g" where
  "elem_trace idx dis g = ([(idx, fst (dis g))], snd (dis g))"

definition diag_trace ::
  "ub + nat \<Rightarrow> ('g \<Rightarrow> 'v \<times> 'g) \<Rightarrow> ('v \<Rightarrow> 'v) \<Rightarrow> 'g \<Rightarrow> 'v event list \<times> 'g" where
  "diag_trace idx dis t10 g = ([(idx, t10 (fst (dis g)))], snd (dis g))"

definition pair_trace ::
  "ub + nat \<Rightarrow> ub + nat \<Rightarrow> ('g \<Rightarrow> 'v \<times> 'g) \<Rightarrow> 'g \<Rightarrow> 'v event list \<times> 'g" where
  "pair_trace idx1 idx2 dis g = ([(idx1, fst (dis g)), (idx2, fst (dis g))], snd (dis g))"

definition general_trace ::
  "(nat \<Rightarrow> nat \<Rightarrow> nat \<Rightarrow> ub + nat) \<Rightarrow> ('g \<Rightarrow> 'v \<times> 'g) \<Rightarrow> int \<Rightarrow> int \<Rightarrow> int \<Rightarrow>
     'g \<Rightarrow> 'v event list \<times> 'g" where
  "general_trace idx dis bc M N =
     seq_trace [0..<nat bc] (\<lambda>b.
       seq_trace [0..<nat M] (\<lambda>i.
         seq_trace [0..<nat N] (\<lambda>j. elem_trace (idx b i j) dis)))"

definition row_trace ::
  "(nat \<Rightarrow> nat \<Rightarrow> nat \<Rightarrow> ub + nat) \<Rightarrow> ('g \<Rightarrow> 'v \<times> 'g) \<Rightarrow> ('v \<Rightarrow> 'v) \<Rightarrow> int \<Rightarrow>
     nat \<Rightarrow> nat \<Rightarrow> 'g \<Rightarrow> 'v event list \<times> 'g" where
  "row_trace idx dis t10 N b i =
     then_trace (diag_trace (idx b i i) dis t10)
       (seq_trace [Suc i..<nat N] (\<lambda>j. pair_trace (idx b i j) (idx b j i) dis))"

definition symmetric_trace ::
  "(nat \<Rightarrow> nat \<Rightarrow> nat \<Rightarrow> ub + nat) \<Rightarrow> ('g \<Rightarrow> 'v \<times> 'g) \<Rightarrow> ('v \<Rightarrow> 'v) \<Rightarrow> int \<Rightarrow> int \<Rightarrow>
     'g \<Rightarrow> 'v event list \<times> 'g" where
  "symmetric_trace idx dis t10 bc N =
     seq_trace [0..<nat bc] (\<lambda>b. seq_trace [0..<nat N] (\<lambda>i. row_trace idx dis t10 N b i))"

text \<open>The offset of element \<open>(i, j)\<close> of batch member \<open>b\<close>, as a mathematical integer.\<close>

definition offset :: "int \<Rightarrow> int \<Rightarrow> nat \<Rightarrow> nat \<Rightarrow> nat \<Rightarrow> int" where
  "offset lda s b i j = int i + int j * lda + int b * s"

subsection \<open>What a run leaves in the buffer\<close>

text \<open>
  Two buffers agree on the elements of the matrices: they have the same length and the
  same value at the index of every element \<open>(i, j)\<close> of every batch member \<open>b\<close>.
\<close>

definition agree_on_elements ::
  "(nat \<Rightarrow> nat \<Rightarrow> nat \<Rightarrow> ub + nat) \<Rightarrow> int \<Rightarrow> int \<Rightarrow> int \<Rightarrow> 'v list \<Rightarrow> 'v list \<Rightarrow> bool" where
  "agree_on_elements idx bc M N h1 h2 \<longleftrightarrow>
     length h1 = length h2 \<and>
     (\<forall>b < nat bc. \<forall>i < nat M. \<forall>j < nat N.
        case idx b i j of Inl e \<Rightarrow> True | Inr k \<Rightarrow> h1 ! k = h2 ! k)"

text \<open>
  Two runs have the same outcome: the same undefined behaviour, or buffers that agree on
  the elements.
\<close>

definition same_outcome ::
  "(nat \<Rightarrow> nat \<Rightarrow> nat \<Rightarrow> ub + nat) \<Rightarrow> int \<Rightarrow> int \<Rightarrow> int \<Rightarrow> ub + 'v list \<Rightarrow> ub + 'v list \<Rightarrow> bool" where
  "same_outcome idx bc M N r1 r2 =
     (case r1 of
        Inl e \<Rightarrow> r2 = Inl e
      | Inr h1 \<Rightarrow> (case r2 of Inl e \<Rightarrow> False | Inr h2 \<Rightarrow> agree_on_elements idx bc M N h1 h2))"


text \<open>
  The padding is untouched: the rows \<open>M, ..., lda - 1\<close> of every column of every batch
  member, and the cells from \<open>lda * N\<close> up to \<open>strideA\<close> of every batch slot, as far as they
  are inside the buffer, still hold what the memory held before.
\<close>

definition padding_kept ::
  "(nat \<Rightarrow> 'v) \<Rightarrow> int \<Rightarrow> int \<Rightarrow> int \<Rightarrow> int \<Rightarrow> int \<Rightarrow> 'v list \<Rightarrow> bool" where
  "padding_kept garbage lda s bc M N hA \<longleftrightarrow>
     (\<forall>b < nat bc. \<forall>j < nat N. \<forall>i. M \<le> int i \<and> int i < lda \<longrightarrow>
        0 \<le> offset lda s b i j \<longrightarrow> nat (offset lda s b i j) < length hA \<longrightarrow>
        hA ! nat (offset lda s b i j) = garbage (nat (offset lda s b i j))) \<and>
     (\<forall>b < nat bc. \<forall>t. lda * N \<le> int t \<and> int t < s \<longrightarrow>
        nat (int b * s + int t) < length hA \<longrightarrow>
        hA ! nat (int b * s + int t) = garbage (nat (int b * s + int t)))"

section \<open>The pointer-batched QR program\<close>

text \<open>
  \<^verbatim>\<open>bench_rocsolver_dgeqrf_batched.cpp\<close> has no stride: every matrix has a buffer of its own
  and \<^verbatim>\<open>hA\<close> is the array of the pointers to them. After \<^verbatim>\<open>if (lda < M) lda = M;\<close> its
  \<^verbatim>\<open>main\<close> computes \<^verbatim>\<open>size_t size_A = lda * (size_t)N;\<close>, the number of elements of one matrix.
\<close>

record batched_layout =
  bl_lda :: int
  bl_size_A :: nat

definition rocsolver_batched_layout :: "int \<Rightarrow> int \<Rightarrow> int \<Rightarrow> batched_layout" where
  "rocsolver_batched_layout M N lda0 =
     (let lda = clamp_lda M lda0
      in \<lparr> bl_lda = lda, bl_size_A = mul_size_t (to_size_t lda) (to_size_t N) \<rparr>)"

text \<open>
  \<^verbatim>\<open>create_example_matrices\<close> of this program. \<^verbatim>\<open>malloc(sizeof(double*) * batch_count)\<close>
  and then, for every \<open>b\<close> below \<^verbatim>\<open>batch_count\<close>,
  \<^verbatim>\<open>hA[b] = malloc(sizeof(double) * lda * N)\<close>: the model of \<^verbatim>\<open>hA\<close> is the list of these
  buffers, each with its own uninitialised content \<open>garbage b\<close>. \<open>matrix_elems\<close> is the
  number of \<^verbatim>\<open>double\<close>s of one buffer, the product being computed in \<^verbatim>\<open>size_t\<close>.
\<close>

definition matrix_elems :: "int \<Rightarrow> int \<Rightarrow> nat" where
  "matrix_elems lda N = mul_size_t (mul_size_t 8 (to_size_t lda)) (to_size_t N) div 8"

text \<open>
  The index \<^verbatim>\<open>i + j * lda\<close>, computed in \<^verbatim>\<open>int\<close>; a negative index is outside the buffer.
\<close>

definition index_int :: "int \<Rightarrow> int \<Rightarrow> int \<Rightarrow> ub + nat" where
  "index_int i j lda =
     (case mul_int j lda of
        Inl e \<Rightarrow> Inl e
      | Inr jl \<Rightarrow>
         (case add_int i jl of
            Inl e \<Rightarrow> Inl e
          | Inr p \<Rightarrow> (if 0 \<le> p then Inr (nat p) else Inl OutOfBounds)))"

text \<open>\<^verbatim>\<open>hA[b][idx] = dis(gen);\<close> on the list of buffers and the state of the engine.\<close>

definition gen_elem_at ::
  "nat \<Rightarrow> ub + nat \<Rightarrow> ('g \<Rightarrow> 'v \<times> 'g) \<Rightarrow> 'v list list \<times> 'g \<Rightarrow> ub + 'v list list \<times> 'g" where
  "gen_elem_at b idx dis s =
     (if b < length (fst s)
      then (case write_elem idx (fst (dis (snd s))) (fst s ! b) of
              Inl e \<Rightarrow> Inl e
            | Inr buf \<Rightarrow> Inr ((fst s)[b := buf], snd (dis (snd s))))
      else Inl OutOfBounds)"

text \<open>
  \<^verbatim>\<open>for b < batch_count: for i < M: for j < N: hA[b][i + j * lda] = dis(gen);\<close>
\<close>

definition fill_batched ::
  "('g \<Rightarrow> 'v \<times> 'g) \<Rightarrow> int \<Rightarrow> int \<Rightarrow> int \<Rightarrow> int \<Rightarrow>
     'v list list \<times> 'g \<Rightarrow> ub + 'v list list \<times> 'g" where
  "fill_batched dis bc M N lda =
     for_loop [0..<nat bc] (\<lambda>b.
       for_loop [0..<nat M] (\<lambda>i.
         for_loop [0..<nat N] (\<lambda>j. gen_elem_at b (index_int (int i) (int j) lda) dis)))"

definition create_example_matrices ::
  "('g, 'v) rng \<Rightarrow> (nat \<Rightarrow> nat \<Rightarrow> 'v) \<Rightarrow> int \<Rightarrow> int \<Rightarrow> int \<Rightarrow> int \<Rightarrow> int \<Rightarrow> ub + 'v list list" where
  "create_example_matrices r garbage M N lda bc seed =
     returned_buffer
       (fill_batched (draw r) bc M N lda
          (map (\<lambda>b. malloc (matrix_elems lda N) (garbage b)) [0..<nat bc], engine r seed))"


text \<open>
  Two runs of this generator have the same outcome: the same undefined behaviour, or as
  many buffers, which agree pairwise on the elements of their matrix (the index of element
  \<open>(i, j)\<close> does not depend on the batch member).
\<close>

definition same_outcome_batched ::
  "int \<Rightarrow> int \<Rightarrow> int \<Rightarrow> ub + 'v list list \<Rightarrow> ub + 'v list list \<Rightarrow> bool" where
  "same_outcome_batched M N lda r1 r2 =
     (case r1 of
        Inl e \<Rightarrow> r2 = Inl e
      | Inr h1 \<Rightarrow>
         (case r2 of
            Inl e \<Rightarrow> False
          | Inr h2 \<Rightarrow>
              length h1 = length h2 \<and>
              list_all2 (agree_on_elements (\<lambda>b i j. index_int (int i) (int j) lda) 1 M N) h1 h2))"

text \<open>
  For the proofs: a step on the buffer of matrix \<open>b\<close> and the engine, as a step on the list
  of buffers.
\<close>

definition on_matrix ::
  "nat \<Rightarrow> ('v list \<times> 'g \<Rightarrow> ub + 'v list \<times> 'g) \<Rightarrow> 'v list list \<times> 'g \<Rightarrow> ub + 'v list list \<times> 'g" where
  "on_matrix b f s =
     (case f (fst s ! b, snd s) of
        Inl e \<Rightarrow> Inl e
      | Inr s' \<Rightarrow> Inr ((fst s)[b := fst s'], snd s'))"

section \<open>Single-precision arithmetic\<close>

text \<open>
  The elapsed times, the statistics and the warm-up threshold are \<^verbatim>\<open>float\<close>s: IEEE 754
  binary32 values, with a significand of 24 bits and exponents from \<open>-126\<close> to \<open>127\<close>. A
  finite \<^verbatim>\<open>float\<close> is modelled by the real number it denotes; the result of an operation
  is the exact result rounded to the nearest \<^verbatim>\<open>float\<close>, ties to the even significand, and
  an infinity when the rounded magnitude reaches \<open>2 ^ 128\<close> (\<open>Inf True\<close> is the negative
  one). The sign of zero is not modelled, and an expression is taken to be evaluated
  operation by operation in \<^verbatim>\<open>float\<close> (no fused multiply-add, no wider intermediate type).
\<close>

datatype fpval = Finite real | Inf bool | NaN

text \<open>Rounding of a real number to the nearest integer, ties to the even one.\<close>

definition round_half_even :: "real \<Rightarrow> int" where
  "round_half_even x =
     (if x - of_int \<lfloor>x\<rfloor> < 1 / 2 then \<lfloor>x\<rfloor>
      else if 1 / 2 < x - of_int \<lfloor>x\<rfloor> then \<lfloor>x\<rfloor> + 1
      else if even \<lfloor>x\<rfloor> then \<lfloor>x\<rfloor> else \<lfloor>x\<rfloor> + 1)"

text \<open>
  The exponent of the binade of a magnitude \<open>a\<close>: the greatest \<open>e\<close> from \<open>-126\<close> to \<open>127\<close> with
  \<open>2 ^ e \<le> a\<close>, found by a scan from the top, and \<open>-126\<close> below the normal range.
\<close>

fun binade :: "nat \<Rightarrow> real \<Rightarrow> int" where
  "binade 0 a = - 126"
| "binade (Suc n) a = (if 2 powi (int n - 126) \<le> a then int n - 126 else binade n a)"

definition float_exponent :: "real \<Rightarrow> int" where
  "float_exponent a = binade 254 a"

text \<open>
  The nearest value with a 24-bit significand at the exponent of \<open>x\<close>; \<open>round_float\<close> adds
  the overflow to an infinity.
\<close>

definition float_value :: "real \<Rightarrow> real" where
  "float_value x =
     of_int (round_half_even (x / 2 powi (float_exponent \<bar>x\<bar> - 23))) *
       2 powi (float_exponent \<bar>x\<bar> - 23)"

definition round_float :: "real \<Rightarrow> fpval" where
  "round_float x =
     (if 2 powi 128 \<le> \<bar>float_value x\<bar> then Inf (x < 0) else Finite (float_value x))"

text \<open>
  The conversion of an \<^verbatim>\<open>int\<close> to \<^verbatim>\<open>float\<close>, as in the comparison
  \<^verbatim>\<open>warmup_elapsed < warmup_time\<close>: every \<^verbatim>\<open>int\<close> is in the range of \<^verbatim>\<open>float\<close>.
\<close>

definition float_of_int :: "int \<Rightarrow> real" where
  "float_of_int i = float_value (real_of_int i)"

text \<open>The operations on \<^verbatim>\<open>float\<close>s.\<close>

fun fadd :: "fpval \<Rightarrow> fpval \<Rightarrow> fpval" where
  "fadd (Finite a) (Finite b) = round_float (a + b)"
| "fadd NaN y = NaN"
| "fadd x NaN = NaN"
| "fadd (Inf s) (Finite b) = Inf s"
| "fadd (Finite a) (Inf s) = Inf s"
| "fadd (Inf s) (Inf t) = (if s = t then Inf s else NaN)"

fun fneg :: "fpval \<Rightarrow> fpval" where
  "fneg (Finite a) = Finite (- a)"
| "fneg (Inf s) = Inf (\<not> s)"
| "fneg NaN = NaN"

definition fsub :: "fpval \<Rightarrow> fpval \<Rightarrow> fpval" where
  "fsub x y = fadd x (fneg y)"

fun fmul :: "fpval \<Rightarrow> fpval \<Rightarrow> fpval" where
  "fmul (Finite a) (Finite b) = round_float (a * b)"
| "fmul NaN y = NaN"
| "fmul x NaN = NaN"
| "fmul (Inf s) (Finite b) = (if b = 0 then NaN else Inf (s \<noteq> (b < 0)))"
| "fmul (Finite a) (Inf s) = (if a = 0 then NaN else Inf (s \<noteq> (a < 0)))"
| "fmul (Inf s) (Inf t) = Inf (s \<noteq> t)"

text \<open>
  \<^verbatim>\<open>x / timings.size()\<close>: the size is converted to \<^verbatim>\<open>float\<close> (it is below \<open>2 ^ 64\<close>, in
  the range of \<^verbatim>\<open>float\<close>), then the division is a \<^verbatim>\<open>float\<close> division; a division by zero
  gives NaN for \<open>0 / 0\<close> and an infinity otherwise.
\<close>

fun fdiv_count :: "fpval \<Rightarrow> nat \<Rightarrow> fpval" where
  "fdiv_count (Finite a) n =
     (if n = 0 then (if a = 0 then NaN else Inf (a < 0))
      else round_float (a / float_value (real n)))"
| "fdiv_count (Inf s) n = Inf s"
| "fdiv_count NaN n = NaN"

text \<open>
  \<^verbatim>\<open>sqrt(x)\<close> stored into a \<^verbatim>\<open>float\<close>: the square root computed in \<^verbatim>\<open>double\<close> and rounded to
  \<^verbatim>\<open>float\<close> is the correctly rounded square root.
\<close>

fun fsqrt :: "fpval \<Rightarrow> fpval" where
  "fsqrt (Finite a) = (if a < 0 then NaN else round_float (sqrt a))"
| "fsqrt (Inf s) = (if s then NaN else Inf False)"
| "fsqrt NaN = NaN"


section \<open>The timed execution loop\<close>

text \<open>
  What a run does outside its own memory: it prints lines, reads a clock and calls the
  library. The \<open>world\<close> holds the lines printed so far, the number of readings of the
  clock so far and the number of executions of the library routine over the whole batch
  so far. The clock and the library are not part of the repository; they are parameters:
  \<open>now k\<close> is the \<open>k\<close>-th reading of the clock in milliseconds
  (\<^verbatim>\<open>std::chrono::high_resolution_clock\<close> on the CPU, the time of a recorded event on the
  GPU), and \<open>status n b\<close> is the status of batch member \<open>b\<close> in the \<open>n\<close>-th execution (the
  value \<^verbatim>\<open>LAPACKE_..._work\<close> returns, the entry of \<^verbatim>\<open>dInfo\<close> on the GPU). The elapsed time
  between two readings is a \<^verbatim>\<open>float\<close> that the clock library computes
  (\<^verbatim>\<open>std::chrono::duration<float, std::milli>\<close>, \<^verbatim>\<open>hipEventElapsedTime\<close>); it is taken to be
  the difference of the readings.
\<close>

record world =
  console :: "string list"
  ticks :: nat
  reps :: nat

definition print_line :: "string \<Rightarrow> world \<Rightarrow> world" where
  "print_line l w = w\<lparr>console := console w @ [l]\<rparr>"

definition read_clock :: "(nat \<Rightarrow> real) \<Rightarrow> world \<Rightarrow> real \<times> world" where
  "read_clock now w = (now (ticks w), w\<lparr>ticks := Suc (ticks w)\<rparr>)"

text \<open>The conversion \<^verbatim>\<open>%d\<close> of \<^verbatim>\<open>printf\<close>.\<close>

definition digit_char :: "nat \<Rightarrow> char" where
  "digit_char d = ''0123456789'' ! d"

fun show_nat :: "nat \<Rightarrow> string" where
  "show_nat n = (if n < 10 then [digit_char n] else show_nat (n div 10) @ [digit_char (n mod 10)])"

definition show_int :: "int \<Rightarrow> string" where
  "show_int i = (if i < 0 then CHR ''-'' # show_nat (nat (- i)) else show_nat (nat i))"

text \<open>
  \<^verbatim>\<open>printf("LAPACKE_sgesvd failed for matrix %d with error %d\n", (int)b, (int)info);\<close>
\<close>

definition failure_line :: "string \<Rightarrow> nat \<Rightarrow> int \<Rightarrow> string" where
  "failure_line routine b info =
     routine @ '' failed for matrix '' @ show_int (int b) @ '' with error '' @ show_int info"

text \<open>
  One execution over the batch in the OpenBLAS programs:
  \<^verbatim>\<open>for (b = 0; b < batch_count; ++b) { info = LAPACKE_..._work(...); if (info != 0) printf(...); }\<close>.
  \<open>report\<close> is false where the \<^verbatim>\<open>if\<close> is commented out (the timed loop of
  \<^verbatim>\<open>bench_openblas_ssyev.cpp\<close>). In \<^verbatim>\<open>bench_openblas_ssyev.cpp\<close> the loop over \<open>b\<close> is an
  OpenMP loop: the lines of one execution can come in any order; the model prints them in
  the order of \<open>b\<close>.
\<close>

definition lapacke_batch :: "string \<Rightarrow> bool \<Rightarrow> (nat \<Rightarrow> nat \<Rightarrow> int) \<Rightarrow> int \<Rightarrow> world \<Rightarrow> world" where
  "lapacke_batch routine report status bc w =
     (fold (\<lambda>b w'. if status (reps w) b \<noteq> 0 \<and> report
                     then print_line (failure_line routine b (status (reps w) b)) w'
                     else w')
        [0..<nat bc] w) \<lparr>reps := Suc (reps w)\<rparr>"

text \<open>
  One execution in the rocSOLVER programs: \<^verbatim>\<open>rocsolver_...(handle, ..., batch_count);\<close>. The
  value it returns is dropped and \<^verbatim>\<open>dInfo\<close> is never copied back: the status is not read.
\<close>

definition rocsolver_batch :: "(nat \<Rightarrow> nat \<Rightarrow> int) \<Rightarrow> int \<Rightarrow> world \<Rightarrow> world" where
  "rocsolver_batch status bc w = w\<lparr>reps := Suc (reps w)\<rparr>"

text \<open>
  The actions the programs repeat. \<^verbatim>\<open>bench_openblas_sgesvdj_strided_batched.cpp\<close> has the
  same batch loop, with the report, in its warm-up loop and in its timed loop;
  \<^verbatim>\<open>bench_openblas_ssyev.cpp\<close> has the report in its warm-up loop only; the four rocSOLVER
  programs repeat \<open>rocsolver_batch\<close> in both loops.
\<close>

definition openblas_sgesvd_action :: "(nat \<Rightarrow> nat \<Rightarrow> int) \<Rightarrow> int \<Rightarrow> world \<Rightarrow> world" where
  "openblas_sgesvd_action = lapacke_batch ''LAPACKE_sgesvd'' True"

definition openblas_ssyev_warmup_action :: "(nat \<Rightarrow> nat \<Rightarrow> int) \<Rightarrow> int \<Rightarrow> world \<Rightarrow> world" where
  "openblas_ssyev_warmup_action = lapacke_batch ''LAPACKE_ssyev'' True"

definition openblas_ssyev_timed_action :: "(nat \<Rightarrow> nat \<Rightarrow> int) \<Rightarrow> int \<Rightarrow> world \<Rightarrow> world" where
  "openblas_ssyev_timed_action = lapacke_batch ''LAPACKE_ssyev'' False"

subsection \<open>Warm-up\<close>

text \<open>
  \<^verbatim>\<open>while (warmup_elapsed < warmup_time || warmup_count == 0) { action; warmup_count++;
  warmup_elapsed = now - warmup_start; }\<close>. \<open>warmup_step\<close> is the body; \<open>thr\<close> is
  \<^verbatim>\<open>warmup_time\<close> as the comparison reads it and \<open>t0\<close> is \<^verbatim>\<open>warmup_start\<close>.
  \<^verbatim>\<open>warmup_count\<close> is an \<^verbatim>\<open>int\<close>: incrementing it beyond \<^verbatim>\<open>INT_MAX\<close> is undefined
  behaviour, which also bounds the number of repetitions of the model.
\<close>

record warmup_state =
  ws_world :: world
  warmup_count :: int
  warmup_elapsed :: real

definition warmup_step ::
  "(world \<Rightarrow> world) \<Rightarrow> (nat \<Rightarrow> real) \<Rightarrow> real \<Rightarrow> warmup_state \<Rightarrow> warmup_state" where
  "warmup_step action now t0 s =
     \<lparr> ws_world = snd (read_clock now (action (ws_world s))),
       warmup_count = warmup_count s + 1,
       warmup_elapsed = fst (read_clock now (action (ws_world s))) - t0 \<rparr>"

function warmup_loop ::
  "(world \<Rightarrow> world) \<Rightarrow> (nat \<Rightarrow> real) \<Rightarrow> real \<Rightarrow> real \<Rightarrow> warmup_state \<Rightarrow> ub + warmup_state" where
  "warmup_loop action now thr t0 s =
     (if warmup_elapsed s < thr \<or> warmup_count s = 0
      then (if int_ok (warmup_count s + 1)
            then warmup_loop action now thr t0 (warmup_step action now t0 s)
            else Inl SignedOverflow)
      else Inr s)"
  by pat_completeness auto
termination
  by (relation "measure (\<lambda>(action, now, thr, t0, s). nat (2 ^ 31 - warmup_count s))")
     (auto simp: warmup_step_def int_ok_def)

text \<open>
  The warm-up phase: \<^verbatim>\<open>warmup_start = now; warmup_elapsed = 0.0f; warmup_count = 0;\<close> and
  the loop. The comparison \<^verbatim>\<open>warmup_elapsed < warmup_time\<close> converts the \<^verbatim>\<open>int\<close> to
  \<^verbatim>\<open>float\<close>; the model compares the exact values.
\<close>

definition warmup_init :: "(nat \<Rightarrow> real) \<Rightarrow> world \<Rightarrow> warmup_state" where
  "warmup_init now w =
     \<lparr> ws_world = snd (read_clock now w), warmup_count = 0, warmup_elapsed = 0 \<rparr>"

definition warmup_phase ::
  "(world \<Rightarrow> world) \<Rightarrow> (nat \<Rightarrow> real) \<Rightarrow> int \<Rightarrow> world \<Rightarrow> ub + warmup_state" where
  "warmup_phase action now wt w =
     warmup_loop action now (float_of_int wt) (fst (read_clock now w)) (warmup_init now w)"

text \<open>The state of the warm-up phase after \<open>n\<close> executions of the body of its loop.\<close>

definition warmup_after ::
  "(world \<Rightarrow> world) \<Rightarrow> (nat \<Rightarrow> real) \<Rightarrow> world \<Rightarrow> nat \<Rightarrow> warmup_state" where
  "warmup_after action now w n =
     (warmup_step action now (fst (read_clock now w)) ^^ n) (warmup_init now w)"

subsection \<open>Measurement\<close>

text \<open>
  \<^verbatim>\<open>for (iter = 0; iter < iterations; ++iter) { start = now; action; stop = now;
  timings.push_back(stop - start); }\<close>
\<close>

definition timed_iteration ::
  "(world \<Rightarrow> world) \<Rightarrow> (nat \<Rightarrow> real) \<Rightarrow> world \<times> real list \<Rightarrow> world \<times> real list" where
  "timed_iteration action now s =
     (let start = fst (read_clock now (fst s));
          w2 = action (snd (read_clock now (fst s)));
          stop = fst (read_clock now w2)
      in (snd (read_clock now w2), snd s @ [stop - start]))"

definition measurement_loop ::
  "(world \<Rightarrow> world) \<Rightarrow> (nat \<Rightarrow> real) \<Rightarrow> int \<Rightarrow> world \<times> real list \<Rightarrow> world \<times> real list" where
  "measurement_loop action now its s =
     fold (\<lambda>iter. timed_iteration action now) [0..<nat its] s"

section \<open>Statistics\<close>

text \<open>
  The statistics are computed in \<^verbatim>\<open>float\<close>, operation by operation. The samples are the
  \<^verbatim>\<open>float\<close>s the clock library returned, given by their real values.
\<close>

text \<open>
  \<^verbatim>\<open>float avg_time = 0.0f; for (float t : timings) avg_time += t;
  avg_time /= timings.size();\<close>
\<close>

definition avg_time_of :: "real list \<Rightarrow> fpval" where
  "avg_time_of timings =
     fdiv_count (fold (\<lambda>t acc. fadd acc (Finite t)) timings (Finite 0)) (length timings)"

text \<open>
  \<^verbatim>\<open>float std_dev = 0.0f; for (float t : timings) std_dev += (t - avg_time) * (t - avg_time);
  std_dev = sqrt(std_dev / timings.size());\<close>
\<close>

definition std_dev_of :: "real list \<Rightarrow> fpval" where
  "std_dev_of timings =
     fsqrt (fdiv_count
       (fold (\<lambda>t acc. fadd acc (fmul (fsub (Finite t) (avg_time_of timings))
                                      (fsub (Finite t) (avg_time_of timings))))
          timings (Finite 0))
       (length timings))"








section \<open>Example runs\<close>

text \<open>
  The world at the start of a program, and a GPU action whose library never fails. The
  clock of the examples is \<open>real\<close>: its \<open>k\<close>-th reading is \<open>k\<close> milliseconds.
\<close>

definition start_world :: world where
  "start_world = \<lparr> console = [], ticks = 0, reps = 0 \<rparr>"


text \<open>A library that reports the status 7 for every batch member of every execution.\<close>

definition failing_status :: "nat \<Rightarrow> nat \<Rightarrow> int" where
  "failing_status n b = 7"

text \<open>A library that fails with the status 3 on batch member 1 only.\<close>

definition second_fails :: "nat \<Rightarrow> nat \<Rightarrow> int" where
  "second_fails n b = (if b = 1 then 3 else 0)"

text \<open>
  The arguments \<^verbatim>\<open>--size 4 --batch-count 1 --iterations 1 --warmup-time 0 --random-seed 42\<close>
  of the eigensolver programs, with the default \<^verbatim>\<open>--lda 10\<close> and no \<^verbatim>\<open>--stride\<close>.
\<close>

definition ssyev_scenario :: bench_args where
  "ssyev_scenario =
     \<lparr> rows = 4, cols = 4, lda_arg = 10, stride = None, batch_count = 1, random_seed = 42,
       iterations = 1, warmup_time = 0 \<rparr>"

text \<open>A coarse stand-in for \<^verbatim>\<open>%.pf\<close>: the integer part of a finite value, without digits after the point.\<close>

definition fmt_floor :: "nat \<Rightarrow> fpval \<Rightarrow> string" where
  "fmt_floor p x = (case x of Finite v \<Rightarrow> show_int \<lfloor>v\<rfloor> | Inf s \<Rightarrow> ''inf'' | NaN \<Rightarrow> ''nan'')"

text \<open>A library that never fails.\<close>

definition no_failure :: "nat \<Rightarrow> nat \<Rightarrow> int" where
  "no_failure n b = 0"

text \<open>The same arguments with \<^verbatim>\<open>--iterations 0\<close>.\<close>

definition no_iterations :: bench_args where
  "no_iterations = ssyev_scenario \<lparr> iterations := 0 \<rparr>"




section \<open>The OpenBLAS eigensolver benchmark from its arguments to its report\<close>

text \<open>
  \<^verbatim>\<open>main\<close> of \<^verbatim>\<open>bench_openblas_ssyev.cpp\<close> after the parsing of its arguments. The matrix
  size \<open>N\<close> (\<^verbatim>\<open>--size\<close>) is the field \<open>cols\<close> of the arguments; the program has no separate
  number of rows. \<open>fmt p x\<close> is the text \<^verbatim>\<open>printf\<close> writes for \<open>x\<close> with \<^verbatim>\<open>%.pf\<close>, a parameter.
  The console is the list of the lines written; a \<^verbatim>\<open>\n\<close> at the start or at the end of a
  format is an empty line. What the library computes and the buffers it reads and writes
  (\<^verbatim>\<open>hA_copy\<close>, \<^verbatim>\<open>hW\<close>, the workspaces) are not modelled: the library is the parameter
  \<open>status\<close>.
\<close>

definition openblas_ssyev_report ::
  "(nat \<Rightarrow> fpval \<Rightarrow> string) \<Rightarrow> int \<Rightarrow> int \<Rightarrow> int \<Rightarrow> int \<Rightarrow> int \<Rightarrow> fpval \<Rightarrow> fpval \<Rightarrow> string list" where
  "openblas_ssyev_report fmt N bc wt wc its avg_time std_dev =
     [ [],
       ''===== Performance Results (CPU - OpenBLAS) ====='',
       ''Matrix size: '' @ show_int N @ '' x '' @ show_int N,
       ''Batch count: '' @ show_int bc,
       ''Warm-up time: '' @ show_int wt @ '' ms (completed '' @ show_int wc @ '' iterations)'',
       ''Timing iterations: '' @ show_int its,
       ''Average execution time: '' @ fmt 3 avg_time @ '' ms'',
       ''Standard deviation: '' @ fmt 3 std_dev @ '' ms'',
       ''=============================================='',
       [] ]"

definition bench_openblas_ssyev ::
  "('g, 'v) rng \<Rightarrow> (nat \<Rightarrow> 'v) \<Rightarrow> (nat \<Rightarrow> real) \<Rightarrow> (nat \<Rightarrow> nat \<Rightarrow> int) \<Rightarrow>
   (nat \<Rightarrow> fpval \<Rightarrow> string) \<Rightarrow> bench_args \<Rightarrow> world \<Rightarrow> ub + world" where
  "bench_openblas_ssyev r garbage now status fmt a w =
     (case openblas_ssyev_hA r garbage a of
        Inl e \<Rightarrow> Inl e
      | Inr hA \<Rightarrow>
         (case warmup_phase (openblas_ssyev_warmup_action status (batch_count a)) now (warmup_time a)
                 (print_line (''Performing warm-up for '' @ show_int (warmup_time a) @ '' ms...'') w) of
            Inl e \<Rightarrow> Inl e
          | Inr s \<Rightarrow>
             (let w2 = print_line (''Completed '' @ show_int (warmup_count s) @
                                   '' warm-up iterations in '' @
                                   fmt 2 (Finite (warmup_elapsed s)) @ '' ms'') (ws_world s);
                  m = measurement_loop (openblas_ssyev_timed_action status (batch_count a)) now
                        (iterations a) (w2, [])
              in Inr (fst m \<lparr> console := console (fst m) @
                        openblas_ssyev_report fmt (cols a) (batch_count a) (warmup_time a)
                          (warmup_count s) (iterations a)
                          (avg_time_of (snd m)) (std_dev_of (snd m)) \<rparr>))))"


section \<open>Properties\<close>

subsection \<open>Arithmetic\<close>

lemma to_size_t_lt: "to_size_t x < 2 ^ 64"
  by (simp add: to_size_t_def nat_less_iff)

lemma to_size_t_ge: "int_ok x \<Longrightarrow> x \<le> int (to_size_t x)"
  by (cases "0 \<le> x") (auto simp: int_ok_def to_size_t_def)

lemma to_size_t_int_ok: "int_ok x \<Longrightarrow> 0 \<le> x \<Longrightarrow> to_size_t x = nat x \<and> to_size_t x < 2 ^ 31"
  by (auto simp: int_ok_def to_size_t_def)

lemma mul_size_t_small: "a < 2 ^ 32 \<Longrightarrow> b < 2 ^ 32 \<Longrightarrow> mul_size_t a b = a * b"
proof -
  assume a: "a < 2 ^ 32" and b: "b < 2 ^ 32"
  have "a * b < 2 ^ 32 * 2 ^ 32"
    using a b by (intro mult_strict_mono) auto
  then have "a * b < 2 ^ 64" by simp
  then show ?thesis by (simp add: mul_size_t_def)
qed

lemma mul_size_t_to_one: "mul_size_t (to_size_t 1) (to_size_t x) = to_size_t x"
  using to_size_t_lt[of x] by (simp add: mul_size_t_def to_size_t_def)

lemma mul_size_t_nonneg_ints:
  assumes "int_ok s" "int_ok b" "0 \<le> s" "0 \<le> b"
  shows "mul_size_t (to_size_t s) (to_size_t b) = nat s * nat b"
proof -
  have "to_size_t s = nat s" "to_size_t b = nat b" "nat s < 2 ^ 32" "nat b < 2 ^ 32"
    using assms by (auto simp: int_ok_def to_size_t_def)
  then show ?thesis by (simp add: mul_size_t_small)
qed

subsection \<open>Argument handling\<close>

lemma clamp_lda_ge: "M \<le> clamp_lda M lda"
  by (simp add: clamp_lda_def)

lemma strideA_size_t_default:
  "strideA_size_t None lda N = Inr s \<Longrightarrow> int_ok (lda * N) \<and> s = to_size_t (lda * N)"
  by (auto simp: strideA_size_t_def mul_int_def split: if_splits)

lemma strideA_int64_default:
  "strideA_int64 None lda N = Inr s \<Longrightarrow> int_ok (lda * N) \<and> s = lda * N"
  by (auto simp: strideA_int64_def mul_int_def split: if_splits)

lemma strideA_int64_int_ok:
  "(case st of None \<Rightarrow> True | Some s \<Rightarrow> int_ok s) \<Longrightarrow> strideA_int64 st lda N = Inr s \<Longrightarrow> int_ok s"
  by (auto simp: strideA_int64_def mul_int_def split: if_splits option.splits)

lemma strideA_size_t_int_ok:
  "(case st of None \<Rightarrow> True | Some s \<Rightarrow> int_ok s) \<Longrightarrow> strideA_size_t st lda N = Inr s \<Longrightarrow>
     \<exists>s'. int_ok s' \<and> s = to_size_t s' \<and> strideA_int64 st lda N = Inr s'"
  by (auto simp: strideA_size_t_def strideA_int64_def mul_int_def split: if_splits option.splits)

lemma openblas_layout_fields:
  assumes "openblas_strided_layout M N lda0 st bc = Inr lay"
  shows "ol_lda lay = clamp_lda M lda0"
    and "strideA_size_t st (ol_lda lay) N = Inr (ol_strideA lay)"
    and "ol_size_A lay = mul_size_t (ol_strideA lay) (to_size_t bc)"
  using assms unfolding openblas_strided_layout_def Let_def
  by (auto split: sum.splits)

lemma rocsolver_layout_fields:
  assumes "rocsolver_strided_layout M N lda0 st bc = Inr lay"
  shows "rl_lda lay = clamp_lda M lda0"
    and "strideA_int64 st (rl_lda lay) N = Inr (rl_strideA lay)"
    and "rl_size_A lay = mul_size_t (to_size_t (rl_strideA lay)) (to_size_t bc)"
  using assms unfolding rocsolver_strided_layout_def Let_def
  by (auto split: sum.splits)

lemma openblas_sizes_fields:
  assumes "openblas_sgesvdj_sizes a l r = Inr c"
  shows "openblas_strided_layout (rows a) (cols a) (lda_arg a) (stride a) (batch_count a)
           = Inr (ob_layout c)"
    and "ob_ldu c = (if parse_job l = CHR ''N'' then 1 else rows a)"
    and "ob_ldvt c = (if parse_job r = CHR ''N'' then 1 else cols a)"
    and "parse_job l = CHR ''N'' \<Longrightarrow> ob_size_U c = mul_size_t (to_size_t 1) (to_size_t (batch_count a))"
    and "parse_job r = CHR ''N'' \<Longrightarrow> ob_size_VT c = mul_size_t (to_size_t 1) (to_size_t (batch_count a))"
  using assms unfolding openblas_sgesvdj_sizes_def Let_def
  by (auto split: sum.splits)

lemma rocsolver_sizes_fields:
  assumes "rocsolver_sgesvdj_sizes a l r = Inr c"
  shows "rocsolver_strided_layout (rows a) (cols a) (lda_arg a) (stride a) (batch_count a)
           = Inr (rs_layout c)"
    and "rs_ldu c = (if parse_svect l = rocblas_svect_none then 1 else rows a)"
    and "rs_ldv c = (if parse_svect r = rocblas_svect_none then 1
                     else if parse_svect r = rocblas_svect_singular
                     then (if rows a < cols a then rows a else cols a) else cols a)"
    and "parse_svect l = rocblas_svect_none \<Longrightarrow> rs_size_U c = mul_size_t (to_size_t 1) (to_size_t (batch_count a))"
    and "parse_svect r = rocblas_svect_none \<Longrightarrow> rs_size_V c = mul_size_t (to_size_t 1) (to_size_t (batch_count a))"
  using assms unfolding rocsolver_sgesvdj_sizes_def Let_def
  by (auto split: sum.splits)

lemma strided_buffer_size_invariants:
  assumes "int_ok bc" and "case st of None \<Rightarrow> True | Some s \<Rightarrow> int_ok s"
  shows "(\<forall>lay. openblas_strided_layout M N lda0 st bc = Inr lay \<longrightarrow>
            M \<le> ol_lda lay \<and>
            (st = None \<longrightarrow>
               ol_strideA lay = to_size_t (ol_lda lay * N) \<and>
               ol_lda lay * N \<le> int (ol_strideA lay)) \<and>
            (st = None \<and> 0 \<le> ol_lda lay * N \<longrightarrow>
               int (ol_strideA lay) = ol_lda lay * N) \<and>
            ol_size_A lay = (ol_strideA lay * to_size_t bc) mod 2 ^ 64 \<and>
            (0 \<le> bc \<and> ol_strideA lay < 2 ^ 31 \<longrightarrow>
               ol_size_A lay = ol_strideA lay * nat bc)) \<and>
         (\<forall>lay. rocsolver_strided_layout M N lda0 st bc = Inr lay \<longrightarrow>
            M \<le> rl_lda lay \<and>
            (st = None \<longrightarrow> rl_strideA lay = rl_lda lay * N) \<and>
            rl_size_A lay = (to_size_t (rl_strideA lay) * to_size_t bc) mod 2 ^ 64 \<and>
            (0 \<le> bc \<and> 0 \<le> rl_strideA lay \<longrightarrow>
               rl_size_A lay = nat (rl_strideA lay) * nat bc)) \<and>
         (\<forall>c. openblas_sgesvdj_sizes a l r = Inr c \<longrightarrow>
            openblas_strided_layout (rows a) (cols a) (lda_arg a) (stride a) (batch_count a)
              = Inr (ob_layout c)) \<and>
         (\<forall>c. rocsolver_sgesvdj_sizes a l r = Inr c \<longrightarrow>
            rocsolver_strided_layout (rows a) (cols a) (lda_arg a) (stride a) (batch_count a)
              = Inr (rs_layout c))"
proof (intro conjI allI impI)
  fix lay assume c: "openblas_strided_layout M N lda0 st bc = Inr lay"
  note f = openblas_layout_fields[OF c]
  show "M \<le> ol_lda lay" by (simp add: f clamp_lda_ge)
  show "ol_size_A lay = (ol_strideA lay * to_size_t bc) mod 2 ^ 64"
    by (simp add: f mul_size_t_def)
  { assume n: "st = None"
    from f(2) n have d: "int_ok (ol_lda lay * N)" "ol_strideA lay = to_size_t (ol_lda lay * N)"
      using strideA_size_t_default by auto
    show "ol_strideA lay = to_size_t (ol_lda lay * N)" by (rule d)
    show "ol_lda lay * N \<le> int (ol_strideA lay)" using d to_size_t_ge by simp }
  { assume n: "st = None \<and> 0 \<le> ol_lda lay * N"
    from f(2) n have d: "int_ok (ol_lda lay * N)" "ol_strideA lay = to_size_t (ol_lda lay * N)"
      using strideA_size_t_default by auto
    show "int (ol_strideA lay) = ol_lda lay * N"
      using d n to_size_t_int_ok by simp }
  { assume n: "0 \<le> bc \<and> ol_strideA lay < 2 ^ 31"
    have b: "to_size_t bc = nat bc" "nat bc < 2 ^ 32"
      using assms n by (auto simp: int_ok_def to_size_t_def)
    have "ol_strideA lay < 2 ^ 32" using n by simp
    then show "ol_size_A lay = ol_strideA lay * nat bc"
      using b by (simp add: f mul_size_t_small) }
next
  fix lay assume c: "rocsolver_strided_layout M N lda0 st bc = Inr lay"
  note f = rocsolver_layout_fields[OF c]
  show "M \<le> rl_lda lay" by (simp add: f clamp_lda_ge)
  show "rl_size_A lay = (to_size_t (rl_strideA lay) * to_size_t bc) mod 2 ^ 64"
    by (simp add: f mul_size_t_def)
  { assume n: "st = None"
    with f(2) show "rl_strideA lay = rl_lda lay * N"
      using strideA_int64_default by auto }
  { assume n: "0 \<le> bc \<and> 0 \<le> rl_strideA lay"
    have "int_ok (rl_strideA lay)" using strideA_int64_int_ok[OF assms(2) f(2)] .
    then show "rl_size_A lay = nat (rl_strideA lay) * nat bc"
      using n assms(1) by (simp add: f mul_size_t_nonneg_ints) }
next
  fix c assume "openblas_sgesvdj_sizes a l r = Inr c"
  then show "openblas_strided_layout (rows a) (cols a) (lda_arg a) (stride a) (batch_count a)
              = Inr (ob_layout c)"
    by (rule openblas_sizes_fields(1))
next
  fix c assume "rocsolver_sgesvdj_sizes a l r = Inr c"
  then show "rocsolver_strided_layout (rows a) (cols a) (lda_arg a) (stride a) (batch_count a)
              = Inr (rs_layout c)"
    by (rule rocsolver_sizes_fields(1))
qed


lemma clamp_lda_max: "clamp_lda M lda0 = max M lda0"
  by (simp add: clamp_lda_def max_def)

lemma batched_layout_invariants:
  "M \<le> bl_lda (rocsolver_batched_layout M N lda0) \<and>
   bl_lda (rocsolver_batched_layout M N lda0) = max M lda0 \<and>
   bl_size_A (rocsolver_batched_layout M N lda0) =
     (to_size_t (bl_lda (rocsolver_batched_layout M N lda0)) * to_size_t N) mod 2 ^ 64 \<and>
   (int_ok lda0 \<and> int_ok M \<and> int_ok N \<and> 0 \<le> max M lda0 \<and> 0 \<le> N \<longrightarrow>
      bl_size_A (rocsolver_batched_layout M N lda0) = nat (max M lda0) * nat N)"
proof -
  have l: "bl_lda (rocsolver_batched_layout M N lda0) = max M lda0"
    by (simp add: rocsolver_batched_layout_def Let_def clamp_lda_max)
  have s: "bl_size_A (rocsolver_batched_layout M N lda0) =
      mul_size_t (to_size_t (max M lda0)) (to_size_t N)"
    by (simp add: rocsolver_batched_layout_def Let_def clamp_lda_max)
  have "bl_size_A (rocsolver_batched_layout M N lda0) = nat (max M lda0) * nat N"
    if "int_ok lda0 \<and> int_ok M \<and> int_ok N \<and> 0 \<le> max M lda0 \<and> 0 \<le> N"
  proof -
    from that have "int_ok (max M lda0)" by (simp add: max_def)
    from mul_size_t_nonneg_ints[OF this, of N] that show ?thesis unfolding s by simp
  qed
  thus ?thesis unfolding l s by (simp add: mul_size_t_def)
qed

lemma strided_layout_lda:
  "(\<forall>lay. openblas_strided_layout M N lda0 st bc = Inr lay \<longrightarrow> ol_lda lay = max M lda0) \<and>
   (\<forall>lay. rocsolver_strided_layout M N lda0 st bc = Inr lay \<longrightarrow> rl_lda lay = max M lda0)"
  using openblas_layout_fields(1)[of M N lda0 st bc] rocsolver_layout_fields(1)[of M N lda0 st bc]
  by (simp add: clamp_lda_max)

text \<open>
  Claim C1, as the code has it. In every program the leading dimension after argument
  handling is the larger one of \<open>M\<close> and the value given, so at least \<open>M\<close> (\<open>M\<close> is \<open>N\<close> in
  the eigensolver programs). In the five strided programs, when \<^verbatim>\<open>--stride\<close> is absent
  \<open>strideA\<close> is \<open>lda * N\<close> (converted to the type of \<open>strideA\<close>, so never below \<open>lda * N\<close>,
  and equal to it when the product is not negative), and \<open>size_A\<close> is
  \<open>strideA * batch_count\<close> in \<^verbatim>\<open>size_t\<close> arithmetic, which is the exact product when neither
  factor is negative; the sizes of both SVD programs are computed from these lines. The
  pointer-batched QR program has no stride: its \<open>size_A\<close> is \<open>lda * N\<close>, the number of
  elements of one matrix, whatever the batch count.
\<close>

theorem buffer_size_invariants:
  assumes "int_ok bc" and "case st of None \<Rightarrow> True | Some s \<Rightarrow> int_ok s"
  shows "(M \<le> bl_lda (rocsolver_batched_layout M N lda0) \<and>
          bl_lda (rocsolver_batched_layout M N lda0) = max M lda0 \<and>
          bl_size_A (rocsolver_batched_layout M N lda0) =
            (to_size_t (bl_lda (rocsolver_batched_layout M N lda0)) * to_size_t N) mod 2 ^ 64 \<and>
          (int_ok lda0 \<and> int_ok M \<and> int_ok N \<and> 0 \<le> max M lda0 \<and> 0 \<le> N \<longrightarrow>
             bl_size_A (rocsolver_batched_layout M N lda0) = nat (max M lda0) * nat N)) \<and>
         ((\<forall>lay. openblas_strided_layout M N lda0 st bc = Inr lay \<longrightarrow> ol_lda lay = max M lda0) \<and>
          (\<forall>lay. rocsolver_strided_layout M N lda0 st bc = Inr lay \<longrightarrow> rl_lda lay = max M lda0)) \<and>
         (\<forall>lay. openblas_strided_layout M N lda0 st bc = Inr lay \<longrightarrow>
            M \<le> ol_lda lay \<and>
            (st = None \<longrightarrow>
               ol_strideA lay = to_size_t (ol_lda lay * N) \<and>
               ol_lda lay * N \<le> int (ol_strideA lay)) \<and>
            (st = None \<and> 0 \<le> ol_lda lay * N \<longrightarrow>
               int (ol_strideA lay) = ol_lda lay * N) \<and>
            ol_size_A lay = (ol_strideA lay * to_size_t bc) mod 2 ^ 64 \<and>
            (0 \<le> bc \<and> ol_strideA lay < 2 ^ 31 \<longrightarrow>
               ol_size_A lay = ol_strideA lay * nat bc)) \<and>
         (\<forall>lay. rocsolver_strided_layout M N lda0 st bc = Inr lay \<longrightarrow>
            M \<le> rl_lda lay \<and>
            (st = None \<longrightarrow> rl_strideA lay = rl_lda lay * N) \<and>
            rl_size_A lay = (to_size_t (rl_strideA lay) * to_size_t bc) mod 2 ^ 64 \<and>
            (0 \<le> bc \<and> 0 \<le> rl_strideA lay \<longrightarrow>
               rl_size_A lay = nat (rl_strideA lay) * nat bc)) \<and>
         (\<forall>c. openblas_sgesvdj_sizes a l r = Inr c \<longrightarrow>
            openblas_strided_layout (rows a) (cols a) (lda_arg a) (stride a) (batch_count a)
              = Inr (ob_layout c)) \<and>
         (\<forall>c. rocsolver_sgesvdj_sizes a l r = Inr c \<longrightarrow>
            rocsolver_strided_layout (rows a) (cols a) (lda_arg a) (stride a) (batch_count a)
              = Inr (rs_layout c))"
  by (intro conjI[OF batched_layout_invariants] conjI[OF strided_layout_lda]
      strided_buffer_size_invariants[OF assms])

lemma sgesvdj_defaults_ok: "args_ok sgesvdj_defaults"
  by (simp add: args_ok_def sgesvdj_defaults_def int_ok_def)

lemma sgesvdj_defaults_fields:
  "rows sgesvdj_defaults = 10" "cols sgesvdj_defaults = 8" "lda_arg sgesvdj_defaults = 10"
  "stride sgesvdj_defaults = None" "batch_count sgesvdj_defaults = 2"
  by (simp_all add: sgesvdj_defaults_def)

lemma openblas_layout_example:
  "openblas_strided_layout 10 8 4 None 2 = Inr \<lparr> ol_lda = 10, ol_strideA = 80, ol_size_A = 160 \<rparr>"
  by (simp add: openblas_strided_layout_def Let_def clamp_lda_def strideA_size_t_def
      mul_int_def int_ok_def to_size_t_def mul_size_t_def)

lemma rocsolver_layout_example:
  "rocsolver_strided_layout 10 8 4 None 2 = Inr \<lparr> rl_lda = 10, rl_strideA = 80, rl_size_A = 160 \<rparr>"
  by (simp add: rocsolver_strided_layout_def Let_def clamp_lda_def strideA_int64_def
      mul_int_def int_ok_def to_size_t_def mul_size_t_def)

lemma openblas_defaults_sizes:
  "openblas_sgesvdj_sizes sgesvdj_defaults ''all'' ''none'' =
     Inr \<lparr> ob_layout = \<lparr> ol_lda = 10, ol_strideA = 80, ol_size_A = 160 \<rparr>,
           ob_jobu = CHR ''A'', ob_jobvt = CHR ''N'',
           ob_min_mn = 8, ob_strideS = 8, ob_size_S = 16, ob_ldu = 10, ob_ldvt = 1,
           ob_strideU = 100, ob_strideVT = 1, ob_size_U = 200, ob_size_VT = 2 \<rparr>"
  by (simp add: openblas_sgesvdj_sizes_def sgesvdj_defaults_def Let_def clamp_lda_def
      openblas_strided_layout_def
      strideA_size_t_def mul_int_def int_ok_def parse_job_def to_size_t_def mul_size_t_def)

lemma rocsolver_defaults_sizes:
  "rocsolver_sgesvdj_sizes sgesvdj_defaults ''all'' ''none'' =
     Inr \<lparr> rs_layout = \<lparr> rl_lda = 10, rl_strideA = 80, rl_size_A = 160 \<rparr>,
           rs_left_svect = rocblas_svect_all, rs_right_svect = rocblas_svect_none,
           rs_min_mn = 8, rs_strideS = 8, rs_size_S = 16, rs_size_info = 2,
           rs_ldu = 10, rs_ldv = 1, rs_strideU = 100, rs_strideV = 1,
           rs_size_U = 200, rs_size_V = 2 \<rparr>"
  by (simp add: rocsolver_sgesvdj_sizes_def sgesvdj_defaults_def Let_def clamp_lda_def
      rocsolver_strided_layout_def
      strideA_int64_def mul_int_def int_ok_def parse_svect_def to_size_t_def mul_size_t_def)

lemma batched_layout_example:
  "rocsolver_batched_layout 10 10 10 = \<lparr> bl_lda = 10, bl_size_A = 100 \<rparr>"
  "rocsolver_batched_layout 10 8 4 = \<lparr> bl_lda = 10, bl_size_A = 80 \<rparr>"
  by (simp_all add: rocsolver_batched_layout_def Let_def clamp_lda_def to_size_t_def mul_size_t_def)

theorem buffer_size_invariants_witness:
  "int_ok 2 \<and>
   (\<exists>lay. openblas_strided_layout 10 8 4 None 2 = Inr lay \<and>
        10 \<le> ol_lda lay \<and> int (ol_strideA lay) = ol_lda lay * 8 \<and>
        ol_size_A lay = ol_strideA lay * nat 2 \<and> ol_size_A lay = 160) \<and>
   (\<exists>lay. rocsolver_strided_layout 10 8 4 None 2 = Inr lay \<and>
        10 \<le> rl_lda lay \<and> rl_strideA lay = rl_lda lay * 8 \<and>
        rl_size_A lay = nat (rl_strideA lay) * nat 2 \<and> rl_size_A lay = 160) \<and>
   (\<exists>c. openblas_sgesvdj_sizes sgesvdj_defaults ''all'' ''none'' = Inr c \<and>
        openblas_strided_layout 10 8 10 None 2 = Inr (ob_layout c)) \<and>
   (\<exists>c. rocsolver_sgesvdj_sizes sgesvdj_defaults ''all'' ''none'' = Inr c \<and>
        rocsolver_strided_layout 10 8 10 None 2 = Inr (rs_layout c)) \<and>
   int_ok 4 \<and> int_ok 10 \<and> int_ok 8 \<and> (0::int) \<le> max 10 4 \<and>
   rocsolver_batched_layout 10 8 4 = \<lparr> bl_lda = 10, bl_size_A = 80 \<rparr> \<and>
   (80::nat) = nat (max 10 4) * nat 8"
  using buffer_size_invariants[of 2 None 10 8 4 sgesvdj_defaults "''all''" "''none''"]
  by (simp add: openblas_layout_example rocsolver_layout_example int_ok_def
      openblas_defaults_sizes rocsolver_defaults_sizes sgesvdj_defaults_fields
      batched_layout_example)

text \<open>
  The claim as stated fails for the pointer-batched QR program: with its default
  arguments (10 rows, 10 columns, \<open>lda\<close> 10, batch count 2) its \<open>size_A\<close> is 100, not the
  200 elements of \<open>lda * N * batch_count\<close> that the strided QR program computes from the
  same arguments.
\<close>

theorem batched_size_counterexample:
  "rocsolver_batched_layout 10 10 10 = \<lparr> bl_lda = 10, bl_size_A = 100 \<rparr> \<and>
   rocsolver_strided_layout 10 10 10 None 2 =
     Inr \<lparr> rl_lda = 10, rl_strideA = 100, rl_size_A = 200 \<rparr> \<and>
   bl_size_A (rocsolver_batched_layout 10 10 10) \<noteq> nat (10 * 10) * nat 2"
  by (simp add: batched_layout_example rocsolver_strided_layout_def Let_def clamp_lda_def
      strideA_int64_def mul_int_def int_ok_def to_size_t_def mul_size_t_def)

lemma parse_job_none: "parse_job ''none'' = CHR ''N''"
  by (simp add: parse_job_def)

lemma parse_job_all: "parse_job ''all'' = CHR ''A''"
  by (simp add: parse_job_def)

lemma parse_svect_none: "parse_svect ''none'' = rocblas_svect_none"
  by (simp add: parse_svect_def)

lemma parse_svect_all: "parse_svect ''all'' = rocblas_svect_all"
  by (simp add: parse_svect_def)

lemma to_size_t_batch:
  "args_ok a \<Longrightarrow> 0 \<le> batch_count a \<Longrightarrow> int (to_size_t (batch_count a)) = batch_count a"
  using to_size_t_int_ok[of "batch_count a"] by (simp add: args_ok_def)

text \<open>
  C2. In both SVD programs, for the left and for the right singular vectors: the mode
  \<open>none\<close> sets the leading dimension (\<open>ldu\<close>, \<open>ldvt\<close> or \<open>ldv\<close>) to 1 and the element
  count of the buffer (\<open>size_U\<close>, \<open>size_VT\<close> or \<open>size_V\<close>) to \<open>batch_count\<close>; the mode
  \<open>all\<close> sets the leading dimension to \<open>M\<close> for \<open>U\<close> and to \<open>N\<close> for \<open>VT\<close> or \<open>V\<close>.
\<close>

theorem svect_mode_mapping:
  assumes "args_ok a"
  shows "(\<forall>c. openblas_sgesvdj_sizes a l r = Inr c \<longrightarrow>
            (l = ''none'' \<longrightarrow> ob_ldu c = 1 \<and> ob_size_U c = to_size_t (batch_count a) \<and>
               (0 \<le> batch_count a \<longrightarrow> int (ob_size_U c) = batch_count a)) \<and>
            (r = ''none'' \<longrightarrow> ob_ldvt c = 1 \<and> ob_size_VT c = to_size_t (batch_count a) \<and>
               (0 \<le> batch_count a \<longrightarrow> int (ob_size_VT c) = batch_count a)) \<and>
            (l = ''all'' \<longrightarrow> ob_ldu c = rows a) \<and>
            (r = ''all'' \<longrightarrow> ob_ldvt c = cols a)) \<and>
         (\<forall>c. rocsolver_sgesvdj_sizes a l r = Inr c \<longrightarrow>
            (l = ''none'' \<longrightarrow> rs_ldu c = 1 \<and> rs_size_U c = to_size_t (batch_count a) \<and>
               (0 \<le> batch_count a \<longrightarrow> int (rs_size_U c) = batch_count a)) \<and>
            (r = ''none'' \<longrightarrow> rs_ldv c = 1 \<and> rs_size_V c = to_size_t (batch_count a) \<and>
               (0 \<le> batch_count a \<longrightarrow> int (rs_size_V c) = batch_count a)) \<and>
            (l = ''all'' \<longrightarrow> rs_ldu c = rows a) \<and>
            (r = ''all'' \<longrightarrow> rs_ldv c = cols a))"
proof (intro conjI allI impI)
  fix c assume c: "openblas_sgesvdj_sizes a l r = Inr c"
  note f = openblas_sizes_fields[OF c]
  { assume l: "l = ''none''"
    show "ob_ldu c = 1" using f(2) l by (simp add: parse_job_none)
    show u: "ob_size_U c = to_size_t (batch_count a)"
      using f(4) l by (simp add: parse_job_none mul_size_t_to_one)
    { assume "0 \<le> batch_count a"
      then show "int (ob_size_U c) = batch_count a"
        using u to_size_t_batch[OF assms] by simp } }
  { assume r: "r = ''none''"
    show "ob_ldvt c = 1" using f(3) r by (simp add: parse_job_none)
    show v: "ob_size_VT c = to_size_t (batch_count a)"
      using f(5) r by (simp add: parse_job_none mul_size_t_to_one)
    { assume "0 \<le> batch_count a"
      then show "int (ob_size_VT c) = batch_count a"
        using v to_size_t_batch[OF assms] by simp } }
  { assume "l = ''all''"
    then show "ob_ldu c = rows a" using f(2) by (simp add: parse_job_all) }
  { assume "r = ''all''"
    then show "ob_ldvt c = cols a" using f(3) by (simp add: parse_job_all) }
next
  fix c assume c: "rocsolver_sgesvdj_sizes a l r = Inr c"
  note f = rocsolver_sizes_fields[OF c]
  { assume l: "l = ''none''"
    show "rs_ldu c = 1" using f(2) l by (simp add: parse_svect_none)
    show u: "rs_size_U c = to_size_t (batch_count a)"
      using f(4) l by (simp add: parse_svect_none mul_size_t_to_one)
    { assume "0 \<le> batch_count a"
      then show "int (rs_size_U c) = batch_count a"
        using u to_size_t_batch[OF assms] by simp } }
  { assume r: "r = ''none''"
    show "rs_ldv c = 1" using f(3) r by (simp add: parse_svect_none)
    show v: "rs_size_V c = to_size_t (batch_count a)"
      using f(5) r by (simp add: parse_svect_none mul_size_t_to_one)
    { assume "0 \<le> batch_count a"
      then show "int (rs_size_V c) = batch_count a"
        using v to_size_t_batch[OF assms] by simp } }
  { assume "l = ''all''"
    then show "rs_ldu c = rows a" using f(2) by (simp add: parse_svect_all) }
  { assume "r = ''all''"
    then show "rs_ldv c = cols a" using f(3) by (simp add: parse_svect_all) }
qed

theorem svect_mode_mapping_witness:
  "args_ok sgesvdj_defaults \<and>
   (\<exists>c. openblas_sgesvdj_sizes sgesvdj_defaults ''all'' ''none'' = Inr c \<and>
        ob_ldu c = rows sgesvdj_defaults \<and> ob_ldvt c = 1 \<and>
        0 \<le> batch_count sgesvdj_defaults \<and>
        int (ob_size_VT c) = batch_count sgesvdj_defaults) \<and>
   (\<exists>c. rocsolver_sgesvdj_sizes sgesvdj_defaults ''all'' ''none'' = Inr c \<and>
        rs_ldu c = rows sgesvdj_defaults \<and> rs_ldv c = 1 \<and>
        int (rs_size_V c) = batch_count sgesvdj_defaults)"
  using svect_mode_mapping[OF sgesvdj_defaults_ok, of "''all''" "''none''"]
    sgesvdj_defaults_ok
  by (simp add: openblas_defaults_sizes rocsolver_defaults_sizes sgesvdj_defaults_fields)

subsection \<open>Generators as sequences of writes\<close>

lemma replay_append:
  "replay (xs @ ys) h = (case replay xs h of Inl e \<Rightarrow> Inl e | Inr h' \<Rightarrow> replay ys h')"
  by (induction xs arbitrary: h) (auto split: sum.splits)

lemma run_trace_then:
  "(case run_trace t1 s of Inl e \<Rightarrow> Inl e | Inr s1 \<Rightarrow> run_trace t2 s1) = run_trace (then_trace t1 t2) s"
  by (auto simp: run_trace_def then_trace_def replay_append split: sum.splits)

lemma seq_trace_Cons_then: "seq_trace (k # ks) t = then_trace (t k) (seq_trace ks t)"
  by (rule ext) (simp add: then_trace_def)

lemma for_loop_run_trace:
  "for_loop ks (\<lambda>k. run_trace (t k)) = run_trace (seq_trace ks t)"
proof
  fix s show "for_loop ks (\<lambda>k. run_trace (t k)) s = run_trace (seq_trace ks t) s"
  proof (induction ks arbitrary: s)
    case Nil
    show ?case by (simp add: run_trace_def)
  next
    case (Cons k ks)
    have "for_loop (k # ks) (\<lambda>k. run_trace (t k)) s =
            (case run_trace (t k) s of Inl e \<Rightarrow> Inl e | Inr s1 \<Rightarrow> run_trace (seq_trace ks t) s1)"
      by (simp add: Cons.IH cong: sum.case_cong)
    also have "\<dots> = run_trace (then_trace (t k) (seq_trace ks t)) s"
      by (rule run_trace_then)
    finally show ?case by (simp only: seq_trace_Cons_then)
  qed
qed

lemma gen_elem_run: "gen_elem idx dis = run_trace (elem_trace idx dis)"
  by (rule ext) (auto simp: gen_elem_def run_trace_def elem_trace_def split: sum.splits)

lemma sym_diag_run: "sym_diag idx dis t10 = run_trace (diag_trace idx dis t10)"
  by (rule ext) (auto simp: sym_diag_def run_trace_def diag_trace_def split: sum.splits)

lemma sym_pair_run: "sym_pair idx1 idx2 dis = run_trace (pair_trace idx1 idx2 dis)"
  by (rule ext) (auto simp: sym_pair_def run_trace_def pair_trace_def split: sum.splits)

lemma fill_general_run:
  "fill_general idx dis bc M N = run_trace (general_trace idx dis bc M N)"
  by (simp add: fill_general_def general_trace_def gen_elem_run for_loop_run_trace)

lemma fill_symmetric_run:
  "fill_symmetric idx dis t10 bc N = run_trace (symmetric_trace idx dis t10 bc N)"
  by (simp add: fill_symmetric_def symmetric_trace_def row_trace_def sym_diag_run sym_pair_run
      for_loop_run_trace run_trace_then cong: sum.case_cong)

lemma write_elem_Inr:
  "write_elem idx v h = Inr h' \<longleftrightarrow> (\<exists>k. idx = Inr k \<and> k < length h \<and> h' = h[k := v])"
  by (auto simp: write_elem_def store_def split: sum.splits)

lemma replay_length: "replay ws h = Inr h' \<Longrightarrow> length h' = length h"
proof (induction ws arbitrary: h)
  case Nil then show ?case by simp
next
  case (Cons e ws)
  then show ?case by (auto simp: write_elem_Inr split: sum.splits)
qed

lemma replay_in_bounds:
  "replay ws h = Inr h' \<Longrightarrow> e \<in> set ws \<Longrightarrow> \<exists>k. fst e = Inr k \<and> k < length h"
proof (induction ws arbitrary: h)
  case Nil then show ?case by simp
next
  case (Cons x ws)
  from Cons.prems(1) obtain h1 where h1: "write_elem (fst x) (snd x) h = Inr h1" "replay ws h1 = Inr h'"
    by (auto split: sum.splits)
  from h1(1) have len: "length h1 = length h" by (auto simp: write_elem_Inr)
  show ?case
  proof (cases "e = x")
    case True
    with h1(1) show ?thesis by (auto simp: write_elem_Inr)
  next
    case False
    with Cons.prems(2) have "e \<in> set ws" by simp
    from Cons.IH[OF h1(2) this] len show ?thesis by simp
  qed
qed

lemma replay_succeeds:
  "(\<forall>e \<in> set ws. \<exists>k. fst e = Inr k \<and> k < length h) \<Longrightarrow> \<exists>h'. replay ws h = Inr h'"
proof (induction ws arbitrary: h)
  case Nil then show ?case by simp
next
  case (Cons x ws)
  then obtain k where k: "fst x = Inr k" "k < length h" by auto
  have "\<forall>e\<in>set ws. \<exists>m. fst e = Inr m \<and> m < length (h[k := snd x])"
    using Cons.prems by simp
  from Cons.IH[OF this] k show ?case by (simp add: write_elem_def store_def)
qed

lemma replay_frame:
  "replay ws h = Inr h' \<Longrightarrow> Inr k \<notin> fst ` set ws \<Longrightarrow> h' ! k = h ! k"
proof (induction ws arbitrary: h)
  case Nil then show ?case by simp
next
  case (Cons x ws)
  from Cons.prems(1) obtain h1 where h1: "write_elem (fst x) (snd x) h = Inr h1" "replay ws h1 = Inr h'"
    by (auto split: sum.splits)
  from h1(1) obtain m where m: "fst x = Inr m" "h1 = h[m := snd x]" by (auto simp: write_elem_Inr)
  from Cons.prems(2) m have "m \<noteq> k" "Inr k \<notin> fst ` set ws" by auto
  with Cons.IH[OF h1(2)] m show ?case by simp
qed

lemma replay_agree:
  "replay ws h1 = Inr h1' \<Longrightarrow> replay ws h2 = Inr h2' \<Longrightarrow> Inr k \<in> fst ` set ws \<Longrightarrow>
     h1' ! k = h2' ! k"
proof (induction ws arbitrary: h1 h2)
  case Nil then show ?case by simp
next
  case (Cons x ws)
  from Cons.prems(1) obtain a1 where a1: "write_elem (fst x) (snd x) h1 = Inr a1" "replay ws a1 = Inr h1'"
    by (auto split: sum.splits)
  from Cons.prems(2) obtain a2 where a2: "write_elem (fst x) (snd x) h2 = Inr a2" "replay ws a2 = Inr h2'"
    by (auto split: sum.splits)
  show ?case
  proof (cases "Inr k \<in> fst ` set ws")
    case True
    from Cons.IH[OF a1(2) a2(2) True] show ?thesis .
  next
    case False
    with Cons.prems(3) have x: "fst x = Inr k" by auto
    from a1(1) x have b1: "k < length h1" "a1 = h1[k := snd x]" by (auto simp: write_elem_Inr)
    from a2(1) x have b2: "k < length h2" "a2 = h2[k := snd x]" by (auto simp: write_elem_Inr)
    have "h1' ! k = a1 ! k" using replay_frame[OF a1(2) False] .
    moreover have "h2' ! k = a2 ! k" using replay_frame[OF a2(2) False] .
    ultimately show ?thesis using b1 b2 by simp
  qed
qed

lemma replay_pair_equal:
  assumes "replay (ws1 @ [(Inr p, v), (Inr q, v)] @ ws2) h = Inr h'"
    and "Inr p \<notin> fst ` set ws2" and "Inr q \<notin> fst ` set ws2"
  shows "h' ! p = h' ! q"
proof -
  from assms(1) obtain a where a: "replay ws1 h = Inr a"
    and b: "replay ([(Inr p, v), (Inr q, v)] @ ws2) a = Inr h'"
    by (auto simp: replay_append split: sum.splits)
  from b have pq: "p < length a" "q < length a"
    and c: "replay ws2 (a[p := v, q := v]) = Inr h'"
    by (auto simp: write_elem_def store_def split: sum.splits if_splits)
  have "h' ! p = (a[p := v, q := v]) ! p" using replay_frame[OF c assms(2)] .
  moreover have "h' ! q = (a[p := v, q := v]) ! q" using replay_frame[OF c assms(3)] .
  moreover have "(a[p := v, q := v]) ! p = v" using pq by (cases "p = q") simp_all
  moreover have "(a[p := v, q := v]) ! q = v" using pq by simp
  ultimately show ?thesis by simp
qed

lemma seq_trace_append:
  "seq_trace (xs @ ys) t g =
     (fst (seq_trace xs t g) @ fst (seq_trace ys t (snd (seq_trace xs t g))),
      snd (seq_trace ys t (snd (seq_trace xs t g))))"
  by (induction xs arbitrary: g) simp_all

lemma seq_trace_events:
  assumes "e \<in> set (fst (seq_trace ks t g))"
  shows "\<exists>k g'. k \<in> set ks \<and> e \<in> set (fst (t k g'))"
  using assms
proof (induction ks arbitrary: g)
  case Nil then show ?case by simp
next
  case (Cons k ks)
  from Cons.prems have "e \<in> set (fst (t k g)) \<or> e \<in> set (fst (seq_trace ks t (snd (t k g))))"
    by simp
  then show ?case
  proof
    assume "e \<in> set (fst (t k g))"
    then show ?thesis by auto
  next
    assume "e \<in> set (fst (seq_trace ks t (snd (t k g))))"
    from Cons.IH[OF this] show ?thesis by auto
  qed
qed

lemma seq_trace_covers:
  assumes "k \<in> set ks" and "\<And>g'. p \<in> fst ` set (fst (t k g'))"
  shows "p \<in> fst ` set (fst (seq_trace ks t g))"
  using assms(1)
proof (induction ks arbitrary: g)
  case Nil then show ?case by simp
next
  case (Cons x ks)
  show ?case
  proof (cases "k = x")
    case True
    with assms(2)[of g] show ?thesis by auto
  next
    case False
    with Cons.prems have "k \<in> set ks" by simp
    from Cons.IH[OF this, of "snd (t x g)"] show ?thesis by auto
  qed
qed

lemma seq_trace_upt_split:
  assumes "a \<le> k" "k < n"
  shows "\<exists>pre g1. fst (seq_trace [a..<n] t g) =
           pre @ fst (t k g1) @ fst (seq_trace [Suc k..<n] t (snd (t k g1)))"
proof -
  have "[a..<n] = [a..<k] @ k # [Suc k..<n]"
    using assms by (metis upt_add_eq_append upt_conv_Cons le_Suc_ex less_imp_le_nat)
  then show ?thesis
    by (simp add: seq_trace_append) blast
qed


lemma general_trace_covers:
  assumes "b < nat bc" "i < nat M" "j < nat N"
  shows "idx b i j \<in> fst ` set (fst (general_trace idx dis bc M N g))"
  unfolding general_trace_def
  by (rule seq_trace_covers[of b], simp add: assms,
      rule seq_trace_covers[of i], simp add: assms,
      rule seq_trace_covers[of j], simp add: assms,
      simp add: elem_trace_def)

lemma row_trace_events:
  assumes "e \<in> set (fst (row_trace idx dis t10 N b i g))"
  shows "fst e = idx b i i \<or> (\<exists>j. i < j \<and> j < nat N \<and> (fst e = idx b i j \<or> fst e = idx b j i))"
proof -
  from assms have "e \<in> set (fst (diag_trace (idx b i i) dis t10 g)) \<or>
      e \<in> set (fst (seq_trace [Suc i..<nat N] (\<lambda>j. pair_trace (idx b i j) (idx b j i) dis)
                      (snd (diag_trace (idx b i i) dis t10 g))))"
    by (simp add: row_trace_def then_trace_def)
  then show ?thesis
  proof
    assume "e \<in> set (fst (diag_trace (idx b i i) dis t10 g))"
    then show ?thesis by (simp add: diag_trace_def)
  next
    assume "e \<in> set (fst (seq_trace [Suc i..<nat N] (\<lambda>j. pair_trace (idx b i j) (idx b j i) dis)
                      (snd (diag_trace (idx b i i) dis t10 g))))"
    from seq_trace_events[OF this]
    obtain j g' where j: "Suc i \<le> j" "j < nat N"
      and e: "e \<in> set (fst (pair_trace (idx b i j) (idx b j i) dis g'))"
      by auto
    from e have "fst e = idx b i j \<or> fst e = idx b j i" by (auto simp: pair_trace_def)
    with j have "\<exists>j. i < j \<and> j < nat N \<and> (fst e = idx b i j \<or> fst e = idx b j i)"
      by (intro exI[of _ j]) auto
    then show ?thesis ..
  qed
qed



lemma row_trace_covers_upper:
  assumes "i \<le> j" "j < nat N"
  shows "idx b i j \<in> fst ` set (fst (row_trace idx dis t10 N b i g))"
proof (cases "i = j")
  case True
  then show ?thesis by (simp add: row_trace_def then_trace_def diag_trace_def)
next
  case False
  with assms have j: "j \<in> set [Suc i..<nat N]" by simp
  have "idx b i j \<in> fst ` set (fst (seq_trace [Suc i..<nat N]
           (\<lambda>j. pair_trace (idx b i j) (idx b j i) dis) (snd (diag_trace (idx b i i) dis t10 g))))"
    by (rule seq_trace_covers[OF j]) (simp add: pair_trace_def)
  then show ?thesis by (auto simp: row_trace_def then_trace_def)
qed

lemma row_trace_covers_lower:
  assumes "i < j" "j < nat N"
  shows "idx b j i \<in> fst ` set (fst (row_trace idx dis t10 N b i g))"
proof -
  from assms have j: "j \<in> set [Suc i..<nat N]" by simp
  have "idx b j i \<in> fst ` set (fst (seq_trace [Suc i..<nat N]
           (\<lambda>j. pair_trace (idx b i j) (idx b j i) dis) (snd (diag_trace (idx b i i) dis t10 g))))"
    by (rule seq_trace_covers[OF j]) (simp add: pair_trace_def)
  then show ?thesis by (auto simp: row_trace_def then_trace_def)
qed

lemma symmetric_trace_covers:
  assumes "b < nat bc" "i < nat N" "j < nat N"
  shows "idx b i j \<in> fst ` set (fst (symmetric_trace idx dis t10 bc N g))"
proof (cases "i \<le> j")
  case True
  show ?thesis unfolding symmetric_trace_def
    by (rule seq_trace_covers[of b], simp add: assms,
        rule seq_trace_covers[of i], simp add: assms,
        rule row_trace_covers_upper[OF True assms(3)])
next
  case False
  then have ji: "j < i" by simp
  show ?thesis unfolding symmetric_trace_def
    by (rule seq_trace_covers[of b], simp add: assms,
        rule seq_trace_covers[of j], simp add: assms,
        rule row_trace_covers_lower[OF ji assms(2)])
qed

text \<open>The two writes of one draw are adjacent, and what follows them writes other elements.\<close>

lemma symmetric_trace_pair_split:
  assumes "b < nat bc" "i < j" "j < nat N"
  shows "\<exists>ws1 v ws2. fst (symmetric_trace idx dis t10 bc N g) =
            ws1 @ [(idx b i j, v), (idx b j i, v)] @ ws2 \<and>
          (\<forall>e \<in> set ws2. \<exists>b' i' j'. fst e = idx b' i' j' \<and> b' < nat bc \<and> i' < nat N \<and> j' < nat N \<and>
              (b', i', j') \<noteq> (b, i, j) \<and> (b', i', j') \<noteq> (b, j, i))"
proof -
  let ?row = "\<lambda>b i. row_trace idx dis t10 N b i"
  let ?bat = "\<lambda>b. seq_trace [0..<nat N] (?row b)"
  let ?pair = "\<lambda>j. pair_trace (idx b i j) (idx b j i) dis"
  from assms have i: "i < nat N" by simp
  obtain pb g1 where Wb: "fst (symmetric_trace idx dis t10 bc N g) =
      pb @ fst (?bat b g1) @ fst (seq_trace [Suc b..<nat bc] ?bat (snd (?bat b g1)))"
    unfolding symmetric_trace_def using seq_trace_upt_split[of 0 b "nat bc" ?bat g] assms(1) by auto
  obtain pi g2 where Wi: "fst (?bat b g1) =
      pi @ fst (?row b i g2) @ fst (seq_trace [Suc i..<nat N] (?row b) (snd (?row b i g2)))"
    using seq_trace_upt_split[of 0 i "nat N" "?row b" g1] i by auto
  let ?g3 = "snd (diag_trace (idx b i i) dis t10 g2)"
  have Wr: "fst (?row b i g2) = fst (diag_trace (idx b i i) dis t10 g2) @
      fst (seq_trace [Suc i..<nat N] ?pair ?g3)"
    by (simp add: row_trace_def then_trace_def)
  obtain pj g4 where Wj: "fst (seq_trace [Suc i..<nat N] ?pair ?g3) =
      pj @ fst (?pair j g4) @ fst (seq_trace [Suc j..<nat N] ?pair (snd (?pair j g4)))"
    using seq_trace_upt_split[of "Suc i" j "nat N" ?pair ?g3] assms by auto
  let ?rj = "fst (seq_trace [Suc j..<nat N] ?pair (snd (?pair j g4)))"
  let ?ri = "fst (seq_trace [Suc i..<nat N] (?row b) (snd (?row b i g2)))"
  let ?rb = "fst (seq_trace [Suc b..<nat bc] ?bat (snd (?bat b g1)))"
  let ?v = "fst (dis g4)"
  have eq: "fst (symmetric_trace idx dis t10 bc N g) =
      (pb @ pi @ fst (diag_trace (idx b i i) dis t10 g2) @ pj)
        @ [(idx b i j, ?v), (idx b j i, ?v)] @ (?rj @ ?ri @ ?rb)"
    by (simp add: Wb Wi Wr Wj pair_trace_def)
  have rj: "\<exists>b' i' j'. fst e = idx b' i' j' \<and> b' < nat bc \<and> i' < nat N \<and> j' < nat N \<and>
              (b', i', j') \<noteq> (b, i, j) \<and> (b', i', j') \<noteq> (b, j, i)" if "e \<in> set ?rj" for e
  proof -
    from seq_trace_events[OF that]
    obtain j' g' where j': "Suc j \<le> j'" "j' < nat N"
      and e: "e \<in> set (fst (pair_trace (idx b i j') (idx b j' i) dis g'))" by auto
    from e have "fst e = idx b i j' \<or> fst e = idx b j' i" by (auto simp: pair_trace_def)
    then show ?thesis
    proof
      assume "fst e = idx b i j'"
      with j' assms i show ?thesis by (intro exI[of _ b] exI[of _ i] exI[of _ j']) auto
    next
      assume "fst e = idx b j' i"
      with j' assms i show ?thesis by (intro exI[of _ b] exI[of _ j'] exI[of _ i]) auto
    qed
  qed
  have ri: "\<exists>b' i' j'. fst e = idx b' i' j' \<and> b' < nat bc \<and> i' < nat N \<and> j' < nat N \<and>
              (b', i', j') \<noteq> (b, i, j) \<and> (b', i', j') \<noteq> (b, j, i)" if "e \<in> set ?ri" for e
  proof -
    from seq_trace_events[OF that]
    obtain i' g' where i': "Suc i \<le> i'" "i' < nat N"
      and e: "e \<in> set (fst (?row b i' g'))" by auto
    from row_trace_events[OF e]
    consider "fst e = idx b i' i'"
      | j' where "i' < j'" "j' < nat N" "fst e = idx b i' j'"
      | j' where "i' < j'" "j' < nat N" "fst e = idx b j' i'"
      by blast
    then show ?thesis
    proof cases
      case 1
      with i' assms show ?thesis by (intro exI[of _ b] exI[of _ i'] exI[of _ i']) auto
    next
      case 2
      with i' assms show ?thesis by (intro exI[of _ b] exI[of _ i'] exI[of _ j']) auto
    next
      case 3
      with i' assms show ?thesis by (intro exI[of _ b] exI[of _ j'] exI[of _ i']) auto
    qed
  qed
  have rb: "\<exists>b' i' j'. fst e = idx b' i' j' \<and> b' < nat bc \<and> i' < nat N \<and> j' < nat N \<and>
              (b', i', j') \<noteq> (b, i, j) \<and> (b', i', j') \<noteq> (b, j, i)" if "e \<in> set ?rb" for e
  proof -
    from seq_trace_events[OF that]
    obtain b' g' where b': "Suc b \<le> b'" "b' < nat bc"
      and e: "e \<in> set (fst (?bat b' g'))" by auto
    from seq_trace_events[OF e]
    obtain i' g'' where i': "i' < nat N" and e': "e \<in> set (fst (?row b' i' g''))" by auto
    from row_trace_events[OF e']
    consider "fst e = idx b' i' i'"
      | j' where "i' < j'" "j' < nat N" "fst e = idx b' i' j'"
      | j' where "i' < j'" "j' < nat N" "fst e = idx b' j' i'"
      by blast
    then show ?thesis
    proof cases
      case 1
      with i' b' show ?thesis by (intro exI[of _ b'] exI[of _ i'] exI[of _ i']) auto
    next
      case 2
      with i' b' show ?thesis by (intro exI[of _ b'] exI[of _ i'] exI[of _ j']) auto
    next
      case 3
      with i' b' show ?thesis by (intro exI[of _ b'] exI[of _ j'] exI[of _ i']) auto
    qed
  qed
  have "\<forall>e \<in> set (?rj @ ?ri @ ?rb). \<exists>b' i' j'. fst e = idx b' i' j' \<and> b' < nat bc \<and>
          i' < nat N \<and> j' < nat N \<and> (b', i', j') \<noteq> (b, i, j) \<and> (b', i', j') \<noteq> (b, j, i)"
    using rj ri rb by auto
  with eq show ?thesis by blast
qed

lemma lin_comb_unique:
  fixes a a' q q' d :: int
  assumes "0 \<le> a" "a < d" "0 \<le> a'" "a' < d" "a + q * d = a' + q' * d"
  shows "a = a' \<and> q = q'"
proof -
  have "(a + q * d) mod d = a mod d" "(a' + q' * d) mod d = a' mod d"
    by simp_all
  moreover have "a mod d = a" "a' mod d = a'"
    using assms by (simp_all add: mod_pos_pos_trivial)
  ultimately have a: "a = a'" using assms(5) by metis
  with assms(5) have "q * d = q' * d" by simp
  moreover have "d \<noteq> 0" using assms by auto
  ultimately have "q = q'" by simp
  with a show ?thesis by simp
qed

lemma index_int64_offset:
  "index_int64 (int i) (int j) lda (int b) s = Inr k \<Longrightarrow> int k = offset lda s b i j"
  by (auto simp: index_int64_def offset_def mul_int_def add_int_def split: if_splits sum.splits)

lemma mod_of_negative:
  fixes x m :: int
  assumes "x < 0" "- m \<le> x"
  shows "x mod m = x + m"
proof -
  have "(x + m) mod m = x mod m" by (rule mod_add_self2)
  moreover have "(x + m) mod m = x + m"
    using assms by (intro mod_pos_pos_trivial) linarith+
  ultimately show ?thesis by simp
qed

lemma size_t_index_value:
  fixes x :: int
  assumes "int k = x mod 2 ^ 64" "- (2 ^ 63) \<le> x" "x < 2 ^ 63" "k < 2 ^ 62"
  shows "int k = x"
proof -
  define m :: int where "m = 2 ^ 62"
  have m: "(2::int) ^ 63 = 2 * m" "(2::int) ^ 64 = 4 * m" "0 < m"
    by (simp_all add: m_def)
  have km: "int k < m"
    using assms(4) unfolding m_def by (metis of_nat_less_iff of_nat_numeral of_nat_power)
  have xb: "- (2 * m) \<le> x" "x < 2 * m" using assms(2,3) m by simp_all
  show ?thesis
  proof (cases "0 \<le> x")
    case True
    with xb m have "x mod (4 * m) = x" by (intro mod_pos_pos_trivial) linarith+
    with assms(1) m show ?thesis by simp
  next
    case False
    then have "x mod (4 * m) = x + 4 * m"
      using xb m by (intro mod_of_negative) linarith+
    with assms(1) m have "int k = x + 4 * m" by simp
    with km xb show ?thesis by linarith
  qed
qed

lemma index_size_t_offset:
  assumes "index_size_t (int i) (int j) lda (int b) (to_size_t s) = Inr k"
    and "k < 2 ^ 62" and "int b < 2 ^ 31" and "int_ok s"
  shows "int k = offset lda s b i j"
proof -
  let ?p = "int i + int j * lda"
  let ?x = "?p + int b * s"
  from assms(1) have p: "int_ok ?p"
    and k: "k = add_size_t (to_size_t ?p) (mul_size_t (to_size_t (int b)) (to_size_t s))"
    by (auto simp: index_size_t_def mul_int_def add_int_def split: if_splits sum.splits)
  have "int k = (?p mod 2 ^ 64 + ((int b mod 2 ^ 64) * (s mod 2 ^ 64)) mod 2 ^ 64) mod 2 ^ 64"
    unfolding k add_size_t_def mul_size_t_def to_size_t_def
    by (simp add: zmod_int nat_mult_distrib)
  also have "\<dots> = ?x mod 2 ^ 64"
    by (simp add: mod_simps)
  finally have kx: "int k = ?x mod 2 ^ 64" .
  define m :: int where "m = 2 ^ 31"
  have m: "0 < m" "m * m = 2 ^ 62" "(2::int) ^ 63 = 2 * (m * m)" by (simp_all add: m_def)
  have sb: "\<bar>s\<bar> \<le> m" "int b \<le> m" "- m \<le> ?p" "?p < m"
    using assms(3,4) p by (auto simp: int_ok_def m_def)
  have "\<bar>int b * s\<bar> = int b * \<bar>s\<bar>" by (simp add: abs_mult)
  also have "\<dots> \<le> m * m"
    using sb m by (intro mult_mono) auto
  finally have bs: "\<bar>int b * s\<bar> \<le> m * m" .
  have "m \<le> m * m" using m by (simp add: m_def)
  with bs sb have "- (2 * (m * m)) \<le> ?x" "?x < 2 * (m * m)" by linarith+
  with m have xb: "- (2 ^ 63) \<le> ?x" "?x < 2 ^ 63" by simp_all
  from size_t_index_value[OF kx xb assms(2)] show ?thesis by (simp add: offset_def)
qed

lemma alloc_elems_le:
  assumes "0 < esz"
  shows "alloc_elems esz S bc \<le> S * to_size_t bc"
proof -
  have "mul_size_t (mul_size_t esz S) (to_size_t bc) \<le> (esz * S) * to_size_t bc"
    unfolding mul_size_t_def
    by (meson mod_less_eq_dividend mult_le_mono1 order_trans)
  then have "mul_size_t (mul_size_t esz S) (to_size_t bc) div esz
               \<le> (esz * (S * to_size_t bc)) div esz"
    by (intro div_le_mono) (simp add: mult.assoc)
  also have "(esz * (S * to_size_t bc)) div esz = S * to_size_t bc"
    using assms by simp
  finally show ?thesis by (simp add: alloc_elems_def)
qed

lemma alloc_elems_lt:
  assumes "4 \<le> esz"
  shows "alloc_elems esz S bc < 2 ^ 62"
proof -
  have "mul_size_t (mul_size_t esz S) (to_size_t bc) < 2 ^ 64"
    by (simp add: mul_size_t_def)
  then have "alloc_elems esz S bc \<le> (2 ^ 64 - 1) div esz"
    unfolding alloc_elems_def by (intro div_le_mono) simp
  also have "\<dots> \<le> (2 ^ 64 - 1) div 4"
    using assms by (intro div_le_mono2) simp_all
  also have "\<dots> < (2 ^ 62 :: nat)" by simp
  finally show ?thesis .
qed

lemma row_offset_le:
  assumes "i < nat N" "j < nat N" "0 \<le> lda"
  shows "int i + int j * lda \<le> (N - 1) + (N - 1) * lda"
proof -
  have "int i \<le> N - 1" "int j \<le> N - 1" using assms by linarith+
  moreover from this assms(3) have "int j * lda \<le> (N - 1) * lda" by (intro mult_right_mono)
  ultimately show ?thesis by linarith
qed

lemma sym_offset_inj:
  assumes N_le: "N \<le> lda"
    and inb: "\<And>b i j. b < nat bc \<Longrightarrow> i < nat N \<Longrightarrow> j < nat N \<Longrightarrow>
                0 \<le> offset lda s b i j \<and> offset lda s b i j < int L"
    and L: "0 \<le> s \<Longrightarrow> 0 < bc \<Longrightarrow> int L \<le> s * bc"
    and dom: "b < nat bc" "i < nat N" "j < nat N" "b' < nat bc" "i' < nat N" "j' < nat N"
    and eq: "offset lda s b i j = offset lda s b' i' j'"
  shows "b = b' \<and> i = i' \<and> j = j'"
proof -
  let ?p = "int i + int j * lda" and ?p' = "int i' + int j' * lda"
  from dom have N1: "1 \<le> N" and bc1: "0 < bc" by linarith+
  with N_le have lda: "0 < lda" by linarith
  from dom N_le have il: "int i < lda" "int i' < lda" by linarith+
  have p0: "0 \<le> ?p" "0 \<le> ?p'" using lda by simp_all
  have rows: "i = i' \<and> j = j'" if "?p = ?p'"
    using lin_comb_unique[of "int i" lda "int i'" "int j" "int j'"] il that by simp
  show ?thesis
  proof (cases "b = b'")
    case True
    with eq have "?p = ?p'" by (simp add: offset_def)
    with rows True show ?thesis by simp
  next
    case False
    with dom have bc2: "2 \<le> bc" by linarith
    have "0 \<le> offset lda s 1 0 0"
      using inb[of 1 0 0] bc2 N1 by simp
    then have s0: "0 \<le> s" by (simp add: offset_def)
    from L[OF s0 bc1] have Ls: "int L \<le> s * bc" .
    let ?n = "nat N - 1" and ?c = "nat bc - 1"
    have nc: "int ?n = N - 1" "int ?c = bc - 1" using N1 bc1 by simp_all
    have "offset lda s ?c ?n ?n < int L"
      using inb[of ?c ?n ?n] N1 bc1 by simp
    then have "(N - 1) + (N - 1) * lda + (bc - 1) * s < s * bc"
      using Ls nc by (simp add: offset_def)
    then have mx: "(N - 1) + (N - 1) * lda < s" by (simp add: algebra_simps)
    have "?p < s" "?p' < s"
      using row_offset_le[of i N j lda] row_offset_le[of i' N j' lda] dom lda mx by simp_all
    with p0 eq have "?p = ?p' \<and> int b = int b'"
      by (intro lin_comb_unique[of ?p s ?p' "int b" "int b'"]) (simp_all add: offset_def)
    with False show ?thesis by simp
  qed
qed

lemma fill_symmetric_replay:
  assumes "fill_symmetric idx dis t10 bc N (h0, g0) = Inr s"
  shows "replay (fst (symmetric_trace idx dis t10 bc N g0)) h0 = Inr (fst s)"
  using assms by (auto simp: fill_symmetric_run run_trace_def split: sum.splits)

lemma fill_general_replay:
  assumes "fill_general idx dis bc M N (h0, g0) = Inr s"
  shows "replay (fst (general_trace idx dis bc M N g0)) h0 = Inr (fst s)"
  using assms by (auto simp: fill_general_run run_trace_def split: sum.splits)

lemma fill_symmetric_in_bounds:
  assumes "fill_symmetric idx dis t10 bc N (h0, g0) = Inr s"
    and "b < nat bc" "i < nat N" "j < nat N"
  shows "\<exists>k. idx b i j = Inr k \<and> k < length h0"
proof -
  from symmetric_trace_covers[OF assms(2-4), of idx dis t10 g0]
  obtain e where "e \<in> set (fst (symmetric_trace idx dis t10 bc N g0))" "fst e = idx b i j"
    by auto
  from replay_in_bounds[OF fill_symmetric_replay[OF assms(1)] this(1)] this(2)
  show ?thesis by simp
qed

lemma fill_symmetric_upper:
  assumes run: "fill_symmetric idx dis t10 bc N (h0, g0) = Inr s"
    and off: "\<And>b i j k. b < nat bc \<Longrightarrow> i < nat N \<Longrightarrow> j < nat N \<Longrightarrow> idx b i j = Inr k \<Longrightarrow>
                 k < length h0 \<Longrightarrow> int k = offset lda st b i j"
    and N_le: "N \<le> lda"
    and L: "0 \<le> st \<Longrightarrow> 0 < bc \<Longrightarrow> int (length h0) \<le> st * bc"
    and dom: "b < nat bc" "i < j" "j < nat N"
  shows "\<exists>p q. idx b i j = Inr p \<and> idx b j i = Inr q \<and> p < length (fst s) \<and> q < length (fst s) \<and>
           fst s ! p = fst s ! q"
proof -
  let ?W = "fst (symmetric_trace idx dis t10 bc N g0)"
  note rp = fill_symmetric_replay[OF run]
  from dom have i: "i < nat N" by simp
  note ib = fill_symmetric_in_bounds[OF run]
  from ib[OF dom(1) i dom(3)] obtain p where p: "idx b i j = Inr p" "p < length h0" by blast
  from ib[OF dom(1) dom(3) i] obtain q where q: "idx b j i = Inr q" "q < length h0" by blast
  have inb: "0 \<le> offset lda st b' i' j' \<and> offset lda st b' i' j' < int (length h0)"
    if "b' < nat bc" "i' < nat N" "j' < nat N" for b' i' j'
  proof -
    from ib[OF that] obtain k where k: "idx b' i' j' = Inr k" "k < length h0" by blast
    from off[OF that k] k(2) show ?thesis by simp
  qed
  from symmetric_trace_pair_split[OF dom, of idx dis t10 g0]
  obtain ws1 v ws2 where W: "?W = ws1 @ [(idx b i j, v), (idx b j i, v)] @ ws2"
    and rest: "\<forall>e \<in> set ws2. \<exists>b' i' j'. fst e = idx b' i' j' \<and> b' < nat bc \<and> i' < nat N \<and>
                 j' < nat N \<and> (b', i', j') \<noteq> (b, i, j) \<and> (b', i', j') \<noteq> (b, j, i)"
    by blast
  have fresh: "Inr k \<notin> fst ` set ws2"
    if k: "idx b i1 j1 = Inr k" "k < length h0" and d1: "i1 < nat N" "j1 < nat N"
      and ij: "(i1, j1) = (i, j) \<or> (i1, j1) = (j, i)" for k i1 j1
  proof
    assume "Inr k \<in> fst ` set ws2"
    then obtain e where e: "e \<in> set ws2" "fst e = Inr k" by (auto simp: image_iff)
    from rest e(1) have "\<exists>b' i' j'. fst e = idx b' i' j' \<and> b' < nat bc \<and> i' < nat N \<and>
                 j' < nat N \<and> (b', i', j') \<noteq> (b, i, j) \<and> (b', i', j') \<noteq> (b, j, i)" ..
    then obtain b' i' j' where t0: "fst e = idx b' i' j'" and t: "b' < nat bc" "i' < nat N"
      "j' < nat N" "(b', i', j') \<noteq> (b, i, j)" "(b', i', j') \<noteq> (b, j, i)"
      by blast
    from t0 e(2) have t1: "idx b' i' j' = Inr k" by simp
    have "int k = offset lda st b' i' j'" using off[OF t(1-3) t1 k(2)] .
    moreover have "int k = offset lda st b i1 j1" using off[OF dom(1) d1 k] .
    ultimately have "offset lda st b' i' j' = offset lda st b i1 j1" by simp
    from sym_offset_inj[OF N_le inb L t(1-3) dom(1) d1 this]
    have "b' = b \<and> i' = i1 \<and> j' = j1" by simp
    with t(4,5) ij show False by auto
  qed
  have "replay (ws1 @ [(Inr p, v), (Inr q, v)] @ ws2) h0 = Inr (fst s)"
    using rp W p q by simp
  from replay_pair_equal[OF this fresh[OF p i dom(3)] fresh[OF q dom(3) i]]
  have "fst s ! p = fst s ! q" by simp
  moreover have "length (fst s) = length h0" using replay_length[OF rp] .
  ultimately show ?thesis using p q by simp
qed

lemma fill_symmetric_symmetric:
  assumes run: "fill_symmetric idx dis t10 bc N (h0, g0) = Inr s"
    and off: "\<And>b i j k. b < nat bc \<Longrightarrow> i < nat N \<Longrightarrow> j < nat N \<Longrightarrow> idx b i j = Inr k \<Longrightarrow>
                 k < length h0 \<Longrightarrow> int k = offset lda st b i j"
    and N_le: "N \<le> lda"
    and L: "0 \<le> st \<Longrightarrow> 0 < bc \<Longrightarrow> int (length h0) \<le> st * bc"
    and dom: "b < nat bc" "i < nat N" "j < nat N" "i \<noteq> j"
  shows "\<exists>p q. idx b i j = Inr p \<and> idx b j i = Inr q \<and> p < length (fst s) \<and> q < length (fst s) \<and>
           fst s ! p = fst s ! q"
proof (cases "i < j")
  case True
  show ?thesis
    by (rule fill_symmetric_upper[OF run off N_le L dom(1) True dom(3)])
next
  case False
  with dom have ji: "j < i" by simp
  from fill_symmetric_upper[OF run off N_le L dom(1) ji dom(2)]
  obtain p q where pq: "idx b j i = Inr p" "idx b i j = Inr q" "p < length (fst s)"
    "q < length (fst s)" "fst s ! p = fst s ! q" by blast
  show ?thesis
    by (rule exI[of _ q], rule exI[of _ p]) (simp add: pq)
qed

lemma returned_buffer_Inr:
  "returned_buffer r = Inr hA \<Longrightarrow> \<exists>s. r = Inr s \<and> fst s = hA"
  by (auto simp: returned_buffer_def split: sum.splits)

lemma length_malloc: "length (malloc n garbage) = n"
  by (simp add: malloc_def)

lemma alloc_elems_stride_bound:
  assumes "int_ok s" "int_ok bc" "0 \<le> s" "0 < bc" "0 < esz"
  shows "int (alloc_elems esz (to_size_t s) bc) \<le> s * bc"
proof -
  have "alloc_elems esz (to_size_t s) bc \<le> to_size_t s * to_size_t bc"
    by (rule alloc_elems_le[OF assms(5)])
  also have "\<dots> = nat s * nat bc"
    using to_size_t_int_ok[of s] to_size_t_int_ok[of bc] assms by simp
  finally have "int (alloc_elems esz (to_size_t s) bc) \<le> int (nat s * nat bc)"
    by (simp only: of_nat_le_iff)
  also have "\<dots> = s * bc" using assms by simp
  finally show ?thesis .
qed

lemma nat_less_int_ok: "int_ok bc \<Longrightarrow> b < nat bc \<Longrightarrow> int b < 2 ^ 31"
  by (auto simp: int_ok_def)

lemma create_matrices_mirror:
  assumes s: "int_ok s" and bc: "int_ok bc" and N_le: "N \<le> lda"
    and run: "create_matrices r garbage N lda (to_size_t s) bc seed = Inr hA"
    and dom: "b < nat bc" "i < nat N" "j < nat N" "i \<noteq> j"
  shows "\<exists>p q. index_size_t (int i) (int j) lda (int b) (to_size_t s) = Inr p \<and>
               index_size_t (int j) (int i) lda (int b) (to_size_t s) = Inr q \<and>
               p < length hA \<and> q < length hA \<and> hA ! p = hA ! q \<and>
               int p = offset lda s b i j \<and> int q = offset lda s b j i \<and>
               int b * s = int b * int (to_size_t s)"
proof -
  let ?idx = "\<lambda>b i j. index_size_t (int i) (int j) lda (int b) (to_size_t s)"
  let ?h0 = "malloc (alloc_elems 4 (to_size_t s) bc) garbage"
  from returned_buffer_Inr[OF run[unfolded create_matrices_def]]
  obtain st where st: "fill_symmetric ?idx (draw r) (times10 r) bc N (?h0, engine r seed) = Inr st"
    "fst st = hA" by blast
  have len: "length ?h0 < 2 ^ 62"
    unfolding length_malloc by (rule alloc_elems_lt) simp
  have off: "int k = offset lda s b i j"
    if "b < nat bc" "i < nat N" "j < nat N" "?idx b i j = Inr k" "k < length ?h0" for b i j k
    using index_size_t_offset[OF that(4) _ nat_less_int_ok[OF bc that(1)] s] that(5) len by simp
  have L: "int (length ?h0) \<le> s * bc" if "0 \<le> s" "0 < bc"
    using alloc_elems_stride_bound[OF s bc that] by (simp add: length_malloc)
  from fill_symmetric_symmetric[OF st(1) off N_le L dom]
  obtain p q where pq: "?idx b i j = Inr p" "?idx b j i = Inr q" "p < length hA" "q < length hA"
    "hA ! p = hA ! q" unfolding st(2) by blast
  have lh: "length hA = length ?h0"
    using replay_length[OF fill_symmetric_replay[OF st(1)]] st(2) by simp
  have "int p = offset lda s b i j" using off[OF dom(1-3) pq(1)] pq(3) lh by simp
  moreover have "int q = offset lda s b j i" using off[OF dom(1,3,2) pq(2)] pq(4) lh by simp
  moreover have "int b * s = int b * int (to_size_t s)"
  proof (cases "b = 0")
    case True
    then show ?thesis by simp
  next
    case False
    with dom have d1: "1 < nat bc" "0 < nat N" by simp_all
    from fill_symmetric_in_bounds[OF st(1) d1(1) d1(2) d1(2)]
    obtain k where k: "?idx 1 0 0 = Inr k" "k < length ?h0" by blast
    from off[OF d1(1) d1(2) d1(2) k] have "0 \<le> s" by (simp add: offset_def)
    with to_size_t_int_ok[OF s] show ?thesis by simp
  qed
  ultimately show ?thesis using pq by blast
qed

lemma create_symmetric_matrices_mirror:
  assumes s: "int_ok s" and bc: "int_ok bc" and N_le: "N \<le> lda"
    and run: "create_symmetric_matrices r garbage N lda s bc seed = Inr hA"
    and dom: "b < nat bc" "i < nat N" "j < nat N" "i \<noteq> j"
  shows "\<exists>p q. index_int64 (int i) (int j) lda (int b) s = Inr p \<and>
               index_int64 (int j) (int i) lda (int b) s = Inr q \<and>
               p < length hA \<and> q < length hA \<and> hA ! p = hA ! q \<and>
               int p = offset lda s b i j \<and> int q = offset lda s b j i"
proof -
  let ?idx = "\<lambda>b i j. index_int64 (int i) (int j) lda (int b) s"
  let ?h0 = "malloc (alloc_elems 4 (to_size_t s) bc) garbage"
  from returned_buffer_Inr[OF run[unfolded create_symmetric_matrices_def]]
  obtain st where st: "fill_symmetric ?idx (draw r) (times10 r) bc N (?h0, engine r seed) = Inr st"
    "fst st = hA" by blast
  have off: "int k = offset lda s b i j"
    if "b < nat bc" "i < nat N" "j < nat N" "?idx b i j = Inr k" "k < length ?h0" for b i j k
    using index_int64_offset[OF that(4)] .
  have L: "int (length ?h0) \<le> s * bc" if "0 \<le> s" "0 < bc"
    using alloc_elems_stride_bound[OF s bc that] by (simp add: length_malloc)
  from fill_symmetric_symmetric[OF st(1) off N_le L dom]
  obtain p q where pq: "?idx b i j = Inr p" "?idx b j i = Inr q" "p < length hA" "q < length hA"
    "hA ! p = hA ! q" unfolding st(2) by blast
  have "int p = offset lda s b i j" using index_int64_offset[OF pq(1)] .
  moreover have "int q = offset lda s b j i" using index_int64_offset[OF pq(2)] .
  ultimately show ?thesis using pq by blast
qed

lemma openblas_ssyev_hA_Inr:
  assumes "openblas_ssyev_hA r garbage a = Inr hA"
  obtains lay where
    "openblas_strided_layout (cols a) (cols a) (lda_arg a) (stride a) (batch_count a) = Inr lay"
    "create_matrices r garbage (cols a) (ol_lda lay) (ol_strideA lay) (batch_count a)
       (random_seed a) = Inr hA"
  using assms by (auto simp: openblas_ssyev_hA_def split: sum.splits)

lemma rocsolver_ssyevj_hA_Inr:
  assumes "rocsolver_ssyevj_hA r garbage a = Inr hA"
  obtains lay where
    "rocsolver_strided_layout (cols a) (cols a) (lda_arg a) (stride a) (batch_count a) = Inr lay"
    "create_symmetric_matrices r garbage (cols a) (rl_lda lay) (rl_strideA lay) (batch_count a)
       (random_seed a) = Inr hA"
  using assms by (auto simp: rocsolver_ssyevj_hA_def split: sum.splits)

text \<open>
  C3. After generation by either symmetric generator, as \<open>main\<close> calls it, the elements
  \<open>(i, j)\<close> and \<open>(j, i)\<close> of every batch member hold the same value, for all \<open>i \<noteq> j\<close>
  below \<open>N\<close>: the indices \<open>i + j * lda + b * strideA\<close> and \<open>j + i * lda + b * strideA\<close>
  are inside the buffer and the buffer has equal values there. Equality is equality of the
  stored values (the same bits); the values a \<^verbatim>\<open>uniform_real_distribution\<close> returns are
  not NaN, so they are also equal under \<^verbatim>\<open>==\<close>.
\<close>

theorem symmetric_generators_mirror:
  assumes "args_ok a"
  shows "(\<forall>lay hA. openblas_strided_layout (cols a) (cols a) (lda_arg a) (stride a)
              (batch_count a) = Inr lay \<longrightarrow>
            openblas_ssyev_hA r garbage a = Inr hA \<longrightarrow>
            (\<forall>b i j. b < nat (batch_count a) \<longrightarrow> i < nat (cols a) \<longrightarrow> j < nat (cols a) \<longrightarrow>
               i \<noteq> j \<longrightarrow>
               (\<exists>p q. index_size_t (int i) (int j) (ol_lda lay) (int b) (ol_strideA lay) = Inr p \<and>
                      index_size_t (int j) (int i) (ol_lda lay) (int b) (ol_strideA lay) = Inr q \<and>
                      int p = int i + int j * ol_lda lay + int b * int (ol_strideA lay) \<and>
                      int q = int j + int i * ol_lda lay + int b * int (ol_strideA lay) \<and>
                      p < length hA \<and> q < length hA \<and> hA ! p = hA ! q))) \<and>
         (\<forall>lay hA. rocsolver_strided_layout (cols a) (cols a) (lda_arg a) (stride a)
              (batch_count a) = Inr lay \<longrightarrow>
            rocsolver_ssyevj_hA r garbage a = Inr hA \<longrightarrow>
            (\<forall>b i j. b < nat (batch_count a) \<longrightarrow> i < nat (cols a) \<longrightarrow> j < nat (cols a) \<longrightarrow>
               i \<noteq> j \<longrightarrow>
               (\<exists>p q. index_int64 (int i) (int j) (rl_lda lay) (int b) (rl_strideA lay) = Inr p \<and>
                      index_int64 (int j) (int i) (rl_lda lay) (int b) (rl_strideA lay) = Inr q \<and>
                      int p = int i + int j * rl_lda lay + int b * rl_strideA lay \<and>
                      int q = int j + int i * rl_lda lay + int b * rl_strideA lay \<and>
                      p < length hA \<and> q < length hA \<and> hA ! p = hA ! q)))"
proof (intro conjI allI impI)
  fix lay hA b i j
  assume lay: "openblas_strided_layout (cols a) (cols a) (lda_arg a) (stride a)
              (batch_count a) = Inr lay"
    and run: "openblas_ssyev_hA r garbage a = Inr hA"
    and dom: "b < nat (batch_count a)" "i < nat (cols a)" "j < nat (cols a)" "i \<noteq> j"
  from run lay have cm: "create_matrices r garbage (cols a) (ol_lda lay) (ol_strideA lay)
      (batch_count a) (random_seed a) = Inr hA"
    by (simp add: openblas_ssyev_hA_def)
  note f = openblas_layout_fields[OF lay]
  have N_le: "cols a \<le> ol_lda lay" by (simp add: f clamp_lda_ge)
  from assms have st: "case stride a of None \<Rightarrow> True | Some s \<Rightarrow> int_ok s"
    and bc: "int_ok (batch_count a)" by (simp_all add: args_ok_def)
  from strideA_size_t_int_ok[OF st f(2)]
  obtain s where s: "int_ok s" "ol_strideA lay = to_size_t s" by blast
  from create_matrices_mirror[OF s(1) bc N_le cm[unfolded s(2)] dom]
  obtain p q where pq: "index_size_t (int i) (int j) (ol_lda lay) (int b) (to_size_t s) = Inr p"
    "index_size_t (int j) (int i) (ol_lda lay) (int b) (to_size_t s) = Inr q"
    "p < length hA" "q < length hA" "hA ! p = hA ! q"
    "int p = offset (ol_lda lay) s b i j" "int q = offset (ol_lda lay) s b j i"
    "int b * s = int b * int (to_size_t s)" by blast
  show "\<exists>p q. index_size_t (int i) (int j) (ol_lda lay) (int b) (ol_strideA lay) = Inr p \<and>
          index_size_t (int j) (int i) (ol_lda lay) (int b) (ol_strideA lay) = Inr q \<and>
          int p = int i + int j * ol_lda lay + int b * int (ol_strideA lay) \<and>
          int q = int j + int i * ol_lda lay + int b * int (ol_strideA lay) \<and>
          p < length hA \<and> q < length hA \<and> hA ! p = hA ! q"
    by (rule exI[of _ p], rule exI[of _ q]) (use pq s(2) in \<open>simp add: offset_def\<close>)
next
  fix lay hA b i j
  assume lay: "rocsolver_strided_layout (cols a) (cols a) (lda_arg a) (stride a)
              (batch_count a) = Inr lay"
    and run: "rocsolver_ssyevj_hA r garbage a = Inr hA"
    and dom: "b < nat (batch_count a)" "i < nat (cols a)" "j < nat (cols a)" "i \<noteq> j"
  from run lay have cm: "create_symmetric_matrices r garbage (cols a) (rl_lda lay) (rl_strideA lay)
      (batch_count a) (random_seed a) = Inr hA"
    by (simp add: rocsolver_ssyevj_hA_def)
  note f = rocsolver_layout_fields[OF lay]
  have N_le: "cols a \<le> rl_lda lay" by (simp add: f clamp_lda_ge)
  from assms have st: "case stride a of None \<Rightarrow> True | Some s \<Rightarrow> int_ok s"
    and bc: "int_ok (batch_count a)" by (simp_all add: args_ok_def)
  have s: "int_ok (rl_strideA lay)" using strideA_int64_int_ok[OF st f(2)] .
  from create_symmetric_matrices_mirror[OF s bc N_le cm dom]
  obtain p q where pq: "index_int64 (int i) (int j) (rl_lda lay) (int b) (rl_strideA lay) = Inr p"
    "index_int64 (int j) (int i) (rl_lda lay) (int b) (rl_strideA lay) = Inr q"
    "p < length hA" "q < length hA" "hA ! p = hA ! q"
    "int p = offset (rl_lda lay) (rl_strideA lay) b i j"
    "int q = offset (rl_lda lay) (rl_strideA lay) b j i" by blast
  show "\<exists>p q. index_int64 (int i) (int j) (rl_lda lay) (int b) (rl_strideA lay) = Inr p \<and>
          index_int64 (int j) (int i) (rl_lda lay) (int b) (rl_strideA lay) = Inr q \<and>
          int p = int i + int j * rl_lda lay + int b * rl_strideA lay \<and>
          int q = int j + int i * rl_lda lay + int b * rl_strideA lay \<and>
          p < length hA \<and> q < length hA \<and> hA ! p = hA ! q"
    by (rule exI[of _ p], rule exI[of _ q]) (use pq in \<open>simp add: offset_def\<close>)
qed

lemma eigen_example_ok: "args_ok eigen_example"
  by (simp add: args_ok_def eigen_example_def int_ok_def)

lemma eigen_example_fields:
  "cols eigen_example = 2" "lda_arg eigen_example = 2" "stride eigen_example = None"
  "batch_count eigen_example = 2" "random_seed eigen_example = 42"
  by (simp_all add: eigen_example_def)

lemma eigen_example_openblas_layout:
  "openblas_strided_layout 2 2 2 None 2 = Inr \<lparr> ol_lda = 2, ol_strideA = 4, ol_size_A = 8 \<rparr>"
  by (simp add: openblas_strided_layout_def Let_def clamp_lda_def strideA_size_t_def
      mul_int_def int_ok_def to_size_t_def mul_size_t_def)

lemma eigen_example_rocsolver_layout:
  "rocsolver_strided_layout 2 2 2 None 2 = Inr \<lparr> rl_lda = 2, rl_strideA = 4, rl_size_A = 8 \<rparr>"
  by (simp add: rocsolver_strided_layout_def Let_def clamp_lda_def strideA_int64_def
      mul_int_def int_ok_def to_size_t_def mul_size_t_def)

lemma eigen_example_openblas_hA:
  "openblas_ssyev_hA counter_rng zero_garbage eigen_example =
     Inr [420, 43, 43, 440, 450, 46, 46, 470]"
  by (simp add: openblas_ssyev_hA_def eigen_example_def openblas_strided_layout_def Let_def
      clamp_lda_def strideA_size_t_def mul_int_def add_int_def int_ok_def to_size_t_def mul_size_t_def
      add_size_t_def create_matrices_def fill_symmetric_def returned_buffer_def malloc_def
      alloc_elems_def index_size_t_def sym_diag_def sym_pair_def write_elem_def store_def
      counter_rng_def zero_garbage_def upt_rec)

lemma eigen_example_rocsolver_hA:
  "rocsolver_ssyevj_hA counter_rng zero_garbage eigen_example =
     Inr [420, 43, 43, 440, 450, 46, 46, 470]"
  by (simp add: rocsolver_ssyevj_hA_def eigen_example_def rocsolver_strided_layout_def Let_def
      clamp_lda_def strideA_int64_def mul_int_def add_int_def int_ok_def int64_ok_def to_size_t_def
      mul_size_t_def create_symmetric_matrices_def fill_symmetric_def returned_buffer_def malloc_def
      alloc_elems_def index_int64_def sym_diag_def sym_pair_def write_elem_def store_def
      counter_rng_def zero_garbage_def upt_rec)

theorem symmetric_generators_mirror_witness:
  "args_ok eigen_example \<and>
   openblas_strided_layout 2 2 2 None 2 = Inr \<lparr> ol_lda = 2, ol_strideA = 4, ol_size_A = 8 \<rparr> \<and>
   openblas_ssyev_hA counter_rng zero_garbage eigen_example =
     Inr [420, 43, 43, 440, 450, 46, 46, 470] \<and>
   (\<exists>p q. index_size_t 0 1 2 1 4 = Inr p \<and> index_size_t 1 0 2 1 4 = Inr q \<and>
          int p = 6 \<and> int q = 5 \<and>
          [420, 43, 43, 440, 450, 46, 46, 470 :: int] ! p = [420, 43, 43, 440, 450, 46, 46, 470] ! q) \<and>
   rocsolver_strided_layout 2 2 2 None 2 = Inr \<lparr> rl_lda = 2, rl_strideA = 4, rl_size_A = 8 \<rparr> \<and>
   rocsolver_ssyevj_hA counter_rng zero_garbage eigen_example =
     Inr [420, 43, 43, 440, 450, 46, 46, 470] \<and>
   (\<exists>p q. index_int64 0 1 2 1 4 = Inr p \<and> index_int64 1 0 2 1 4 = Inr q \<and>
          int p = 6 \<and> int q = 5 \<and>
          [420, 43, 43, 440, 450, 46, 46, 470 :: int] ! p = [420, 43, 43, 440, 450, 46, 46, 470] ! q)"
proof -
  note t = symmetric_generators_mirror[OF eigen_example_ok, of counter_rng zero_garbage]
  have l1: "openblas_strided_layout (cols eigen_example) (cols eigen_example)
      (lda_arg eigen_example) (stride eigen_example) (batch_count eigen_example) =
      Inr \<lparr> ol_lda = 2, ol_strideA = 4, ol_size_A = 8 \<rparr>"
    by (simp add: eigen_example_fields eigen_example_openblas_layout)
  have l2: "rocsolver_strided_layout (cols eigen_example) (cols eigen_example)
      (lda_arg eigen_example) (stride eigen_example) (batch_count eigen_example) =
      Inr \<lparr> rl_lda = 2, rl_strideA = 4, rl_size_A = 8 \<rparr>"
    by (simp add: eigen_example_fields eigen_example_rocsolver_layout)
  have d: "(1::nat) < nat (batch_count eigen_example)" "(0::nat) < nat (cols eigen_example)"
    "(1::nat) < nat (cols eigen_example)" "(0::nat) \<noteq> 1"
    by (simp_all add: eigen_example_fields)
  from t[THEN conjunct1, rule_format, OF l1 eigen_example_openblas_hA d]
  have a: "\<exists>p q. index_size_t 0 1 2 1 4 = Inr p \<and> index_size_t 1 0 2 1 4 = Inr q \<and>
          int p = 6 \<and> int q = 5 \<and>
          [420, 43, 43, 440, 450, 46, 46, 470 :: int] ! p = [420, 43, 43, 440, 450, 46, 46, 470] ! q"
    by simp
  from t[THEN conjunct2, rule_format, OF l2 eigen_example_rocsolver_hA d]
  have b: "\<exists>p q. index_int64 0 1 2 1 4 = Inr p \<and> index_int64 1 0 2 1 4 = Inr q \<and>
          int p = 6 \<and> int q = 5 \<and>
          [420, 43, 43, 440, 450, 46, 46, 470 :: int] ! p = [420, 43, 43, 440, 450, 46, 46, 470] ! q"
    by simp
  show ?thesis
    using a b eigen_example_ok eigen_example_openblas_layout eigen_example_rocsolver_layout
      eigen_example_openblas_hA eigen_example_rocsolver_hA
    by simp
qed

subsection \<open>Determinism of the generators\<close>

lemma replay_Inl_indep:
  "length h1 = length h2 \<Longrightarrow> replay ws h1 = Inl e \<Longrightarrow> replay ws h2 = Inl e"
proof (induction ws arbitrary: h1 h2)
  case Nil then show ?case by simp
next
  case (Cons x ws)
  show ?case
  proof (cases "fst x")
    case (Inl e')
    with Cons.prems show ?thesis by (simp add: write_elem_def)
  next
    case (Inr k)
    show ?thesis
    proof (cases "k < length h1")
      case True
      with Cons.prems Inr have "replay ws (h1[k := snd x]) = Inl e"
        by (simp add: write_elem_def store_def)
      from Cons.IH[OF _ this, of "h2[k := snd x]"] Cons.prems(1) True Inr
      show ?thesis by (simp add: write_elem_def store_def)
    next
      case False
      with Cons.prems Inr show ?thesis by (simp add: write_elem_def store_def)
    qed
  qed
qed

lemma replay_Inr_indep:
  assumes "length h1 = length h2" "replay ws h1 = Inr a"
  shows "\<exists>b. replay ws h2 = Inr b"
proof (cases "replay ws h2")
  case (Inl e)
  from replay_Inl_indep[OF assms(1)[symmetric] Inl] assms(2) show ?thesis by simp
next
  case (Inr b)
  then show ?thesis by blast
qed

lemma run_trace_Inr:
  "run_trace t (h, g) = Inr s \<longleftrightarrow> replay (fst (t g)) h = Inr (fst s) \<and> snd s = snd (t g)"
  by (cases s) (auto simp: run_trace_def split: sum.splits)

lemma run_trace_Inl:
  "run_trace t (h, g) = Inl e \<longleftrightarrow> replay (fst (t g)) h = Inl e"
  by (auto simp: run_trace_def split: sum.splits)

lemma returned_buffer_run_trace:
  "returned_buffer (run_trace t (h, g)) = replay (fst (t g)) h"
  by (auto simp: returned_buffer_def run_trace_def split: sum.splits)

text \<open>The outcome of replaying a sequence of writes does not depend on the old content.\<close>

lemma replay_same_outcome:
  assumes len: "length h1 = length h2"
    and cov: "\<And>b i j. b < nat bc \<Longrightarrow> i < nat M \<Longrightarrow> j < nat N \<Longrightarrow> idx b i j \<in> fst ` set ws"
  shows "same_outcome idx bc M N (replay ws h1) (replay ws h2)"
proof (cases "replay ws h1")
  case (Inl e)
  with replay_Inl_indep[OF len Inl] show ?thesis by (simp add: same_outcome_def)
next
  case (Inr a)
  from replay_Inr_indep[OF len Inr] obtain b where b: "replay ws h2 = Inr b" by blast
  have "length a = length b"
    using replay_length[OF Inr] replay_length[OF b] len by simp
  moreover have "case idx b' i j of Inl e \<Rightarrow> True | Inr k \<Rightarrow> a ! k = b ! k"
    if "b' < nat bc" "i < nat M" "j < nat N" for b' i j
  proof (cases "idx b' i j")
    case (Inl e)
    then show ?thesis by simp
  next
    case (Inr k)
    with cov[OF that] have "Inr k \<in> fst ` set ws" by simp
    from replay_agree[OF \<open>replay ws h1 = Inr a\<close> b this] Inr show ?thesis by simp
  qed
  ultimately show ?thesis using Inr b by (simp add: same_outcome_def agree_on_elements_def)
qed

lemma fill_general_same_outcome:
  assumes "length h1 = length h2"
  shows "same_outcome idx bc M N
           (returned_buffer (fill_general idx dis bc M N (h1, g)))
           (returned_buffer (fill_general idx dis bc M N (h2, g)))"
  unfolding fill_general_run returned_buffer_run_trace
  by (rule replay_same_outcome[OF assms]) (rule general_trace_covers)

lemma fill_symmetric_same_outcome:
  assumes "length h1 = length h2"
  shows "same_outcome idx bc N N
           (returned_buffer (fill_symmetric idx dis t10 bc N (h1, g)))
           (returned_buffer (fill_symmetric idx dis t10 bc N (h2, g)))"
  unfolding fill_symmetric_run returned_buffer_run_trace
  by (rule replay_same_outcome[OF assms]) (rule symmetric_trace_covers)

subsection \<open>What the generators leave unwritten\<close>









subsection \<open>The generator of the pointer-batched program\<close>

text \<open>
  The loops over the rows and columns of matrix \<open>b\<close> are the loop nest of the general
  generators on the buffer of that matrix, with one batch member.
\<close>

lemma fill_general_one:
  "fill_general idx dis 1 M N s =
     for_loop [0..<nat M] (\<lambda>i. for_loop [0..<nat N] (\<lambda>j. gen_elem (idx 0 i j) dis)) s"
  by (simp add: fill_general_def split: sum.splits)

lemma gen_elem_at_on_matrix:
  "b < length (fst s) \<Longrightarrow> gen_elem_at b idx dis s = on_matrix b (gen_elem idx dis) s"
  by (simp add: gen_elem_at_def on_matrix_def gen_elem_def split: sum.splits)

lemma on_matrix_length:
  "on_matrix b f s = Inr s' \<Longrightarrow> length (fst s') = length (fst s)"
  by (auto simp: on_matrix_def split: sum.splits)

lemma for_loop_on_matrix:
  fixes s :: "'v list list \<times> 'g"
  assumes "\<And>k s'. length (fst s') = length (fst s) \<Longrightarrow> body2 k s' = on_matrix b (body1 k) s'"
    and "b < length (fst s)"
  shows "for_loop ks body2 s = on_matrix b (for_loop ks body1) s"
  using assms
proof (induction ks arbitrary: s)
  case Nil
  then show ?case by (simp add: on_matrix_def)
next
  case (Cons k ks)
  have st: "body2 k s = on_matrix b (body1 k) s" by (rule Cons.prems(1)) simp
  show ?case
  proof (cases "body1 k (fst s ! b, snd s)")
    case (Inl e)
    then show ?thesis by (simp add: st on_matrix_def)
  next
    case (Inr t)
    let ?s1 = "((fst s)[b := fst t], snd t)"
    have s1: "on_matrix b (body1 k) s = Inr ?s1" using Inr by (simp add: on_matrix_def)
    have len: "length (fst ?s1) = length (fst s)" by simp
    have "for_loop ks body2 ?s1 = on_matrix b (for_loop ks body1) ?s1"
    proof (rule Cons.IH)
      fix k' and s' :: "'v list list \<times> 'g" assume "length (fst s') = length (fst ?s1)"
      hence "length (fst s') = length (fst s)" by simp
      thus "body2 k' s' = on_matrix b (body1 k') s'" by (rule Cons.prems(1))
    next
      show "b < length (fst ?s1)" using Cons.prems(2) by simp
    qed
    moreover have "on_matrix b (for_loop ks body1) ?s1 =
        (case for_loop ks body1 t of Inl e \<Rightarrow> Inl e
         | Inr s' \<Rightarrow> Inr ((fst s)[b := fst s'], snd s'))"
      using Cons.prems(2) by (simp add: on_matrix_def cong: sum.case_cong)
    ultimately show ?thesis using Inr by (simp add: st s1 on_matrix_def)
  qed
qed

lemma matrix_loops_on_matrix:
  fixes s :: "'v list list \<times> 'g"
  assumes "b < length (fst s)"
  shows "for_loop [0..<nat M] (\<lambda>i.
           for_loop [0..<nat N] (\<lambda>j. gen_elem_at b (index_int (int i) (int j) lda) dis)) s =
         on_matrix b (fill_general (\<lambda>b i j. index_int (int i) (int j) lda) dis 1 M N) s"
proof -
  have inner: "for_loop [0..<nat N] (\<lambda>j. gen_elem_at b (index_int (int i) (int j) lda) dis) s' =
      on_matrix b (for_loop [0..<nat N] (\<lambda>j. gen_elem (index_int (int i) (int j) lda) dis)) s'"
    if "length (fst s') = length (fst s)" for i and s' :: "'v list list \<times> 'g"
  proof (rule for_loop_on_matrix)
    fix k and s'' :: "'v list list \<times> 'g" assume "length (fst s'') = length (fst s')"
    with that assms have "b < length (fst s'')" by simp
    thus "gen_elem_at b (index_int (int i) (int k) lda) dis s'' =
        on_matrix b (gen_elem (index_int (int i) (int k) lda) dis) s''"
      by (rule gen_elem_at_on_matrix)
  next
    show "b < length (fst s')" using that assms by simp
  qed
  have "for_loop [0..<nat M] (\<lambda>i.
           for_loop [0..<nat N] (\<lambda>j. gen_elem_at b (index_int (int i) (int j) lda) dis)) s =
      on_matrix b (for_loop [0..<nat M] (\<lambda>i.
           for_loop [0..<nat N] (\<lambda>j. gen_elem (index_int (int i) (int j) lda) dis))) s"
    by (rule for_loop_on_matrix) (use inner assms in auto)
  thus ?thesis unfolding fill_general_one[abs_def] .
qed


lemma for_loop_cong_length:
  fixes s :: "'v list list \<times> 'g"
  assumes eq: "\<And>k s'. k \<in> set ks \<Longrightarrow> length (fst s') = length (fst s) \<Longrightarrow> body2 k s' = body1 k s'"
    and len: "\<And>k s' s''. body1 k s' = Inr s'' \<Longrightarrow> length (fst s'') = length (fst s')"
  shows "for_loop ks body2 s = for_loop ks body1 s"
  using eq
proof (induction ks arbitrary: s)
  case Nil
  then show ?case by simp
next
  case (Cons k ks)
  have st: "body2 k s = body1 k s" by (rule Cons.prems) simp_all
  show ?case
  proof (cases "body1 k s")
    case (Inl e)
    then show ?thesis by (simp add: st)
  next
    case (Inr s1)
    have l: "length (fst s1) = length (fst s)" by (rule len[OF Inr])
    have "for_loop ks body2 s1 = for_loop ks body1 s1"
    proof (rule Cons.IH)
      fix k' and s' :: "'v list list \<times> 'g"
      assume "k' \<in> set ks" "length (fst s') = length (fst s1)"
      thus "body2 k' s' = body1 k' s'" using l by (intro Cons.prems) simp_all
    qed
    thus ?thesis using Inr by (simp add: st)
  qed
qed

lemma fill_batched_on_matrix:
  fixes s :: "'v list list \<times> 'g"
  assumes "length (fst s) = nat bc"
  shows "fill_batched dis bc M N lda s =
     for_loop [0..<nat bc]
       (\<lambda>b. on_matrix b (fill_general (\<lambda>b i j. index_int (int i) (int j) lda) dis 1 M N)) s"
  unfolding fill_batched_def
proof (rule for_loop_cong_length)
  fix k and s' :: "'v list list \<times> 'g"
  assume "k \<in> set [0..<nat bc]" "length (fst s') = length (fst s)"
  with assms have "k < length (fst s')" by simp
  thus "for_loop [0..<nat M] (\<lambda>i.
           for_loop [0..<nat N] (\<lambda>j. gen_elem_at k (index_int (int i) (int j) lda) dis)) s' =
        on_matrix k (fill_general (\<lambda>b i j. index_int (int i) (int j) lda) dis 1 M N) s'"
    by (rule matrix_loops_on_matrix)
next
  fix k and s' s'' :: "'v list list \<times> 'g"
  assume "on_matrix k (fill_general (\<lambda>b i j. index_int (int i) (int j) lda) dis 1 M N) s' = Inr s''"
  thus "length (fst s'') = length (fst s')" by (rule on_matrix_length)
qed

text \<open>A run over the matrices \<open>bs\<close> leaves the other buffers as they were.\<close>

lemma on_matrix_loop_frame:
  fixes s :: "'v list list \<times> 'g"
  assumes "for_loop bs (\<lambda>b. on_matrix b f) s = Inr s'"
  shows "length (fst s') = length (fst s) \<and> (\<forall>c. c \<notin> set bs \<longrightarrow> fst s' ! c = fst s ! c)"
  using assms
proof (induction bs arbitrary: s)
  case Nil
  then show ?case by simp
next
  case (Cons b bs)
  from Cons.prems obtain s1 where s1: "on_matrix b f s = Inr s1"
    and r: "for_loop bs (\<lambda>b. on_matrix b f) s1 = Inr s'"
    by (auto split: sum.splits)
  from s1 obtain t where t: "fst s1 = (fst s)[b := t]"
    by (auto simp: on_matrix_def split: sum.splits)
  from Cons.IH[OF r] t show ?case by auto
qed



text \<open>Two runs over the matrices \<open>bs\<close> from lists of buffers of the same shape.\<close>

lemma on_matrix_loop_related:
  fixes h1 h2 :: "'v list list"
  assumes p1: "\<And>a b g e. length a = length b \<Longrightarrow> f (a, g) = Inl e \<Longrightarrow> f (b, g) = Inl e"
    and p2: "\<And>a b g t. length a = length b \<Longrightarrow> f (a, g) = Inr t \<Longrightarrow>
               \<exists>u. f (b, g) = Inr u \<and> snd u = snd t \<and> R (fst t) (fst u)"
    and rl: "\<And>a b. R a b \<Longrightarrow> length a = length b"
    and "length h1 = length h2" "\<forall>c<length h1. length (h1 ! c) = length (h2 ! c)"
    and "distinct bs" "\<forall>b\<in>set bs. b < length h1"
  shows "(\<forall>e. for_loop bs (\<lambda>b. on_matrix b f) (h1, g) = Inl e \<longrightarrow>
              for_loop bs (\<lambda>b. on_matrix b f) (h2, g) = Inl e) \<and>
         (\<forall>s1. for_loop bs (\<lambda>b. on_matrix b f) (h1, g) = Inr s1 \<longrightarrow>
              (\<exists>s2. for_loop bs (\<lambda>b. on_matrix b f) (h2, g) = Inr s2 \<and>
                    length (fst s1) = length h1 \<and> length (fst s2) = length h1 \<and>
                    (\<forall>b\<in>set bs. R (fst s1 ! b) (fst s2 ! b))))"
  using assms(4-)
proof (induction bs arbitrary: h1 h2 g)
  case Nil
  then show ?case by simp
next
  case (Cons b bs)
  have bl: "b < length h1" "b < length h2" using Cons.prems(1,4) by simp_all
  have lb: "length (h1 ! b) = length (h2 ! b)" using Cons.prems(2) bl by simp
  have nb: "b \<notin> set bs" and d: "distinct bs" using Cons.prems(3) by simp_all
  show ?case
  proof (cases "f (h1 ! b, g)")
    case (Inl e)
    from p1[OF lb Inl] Inl show ?thesis by (simp add: on_matrix_def)
  next
    case (Inr t)
    from p2[OF lb Inr] obtain u where u: "f (h2 ! b, g) = Inr u" "snd u = snd t" "R (fst t) (fst u)"
      by blast
    let ?h1 = "h1[b := fst t]" and ?h2 = "h2[b := fst u]"
    have st1: "on_matrix b f (h1, g) = Inr (?h1, snd t)" using Inr by (simp add: on_matrix_def)
    have st2: "on_matrix b f (h2, g) = Inr (?h2, snd t)" using u by (simp add: on_matrix_def)
    have c1: "length ?h1 = length ?h2" using Cons.prems(1) by simp
    have c2: "\<forall>c<length ?h1. length (?h1 ! c) = length (?h2 ! c)"
    proof (intro allI impI)
      fix c assume "c < length ?h1"
      thus "length (?h1 ! c) = length (?h2 ! c)"
        using Cons.prems(1,2) rl[OF u(3)] by (cases "c = b") simp_all
    qed
    have c4: "\<forall>c\<in>set bs. c < length ?h1" using Cons.prems(4) by simp
    note ih = Cons.IH[OF c1 c2 d c4, of "snd t"]
    show ?thesis
    proof (intro conjI allI impI)
      fix e assume "for_loop (b # bs) (\<lambda>b. on_matrix b f) (h1, g) = Inl e"
      hence "for_loop bs (\<lambda>b. on_matrix b f) (?h1, snd t) = Inl e" by (simp add: st1)
      with ih have "for_loop bs (\<lambda>b. on_matrix b f) (?h2, snd t) = Inl e" by blast
      thus "for_loop (b # bs) (\<lambda>b. on_matrix b f) (h2, g) = Inl e" by (simp add: st2)
    next
      fix s1 assume "for_loop (b # bs) (\<lambda>b. on_matrix b f) (h1, g) = Inr s1"
      hence r1: "for_loop bs (\<lambda>b. on_matrix b f) (?h1, snd t) = Inr s1" by (simp add: st1)
      with ih obtain s2 where s2: "for_loop bs (\<lambda>b. on_matrix b f) (?h2, snd t) = Inr s2"
        "length (fst s1) = length ?h1" "length (fst s2) = length ?h1"
        "\<forall>c\<in>set bs. R (fst s1 ! c) (fst s2 ! c)"
        by blast
      from on_matrix_loop_frame[OF r1] nb have "fst s1 ! b = ?h1 ! b" by simp
      hence b1: "fst s1 ! b = fst t" using bl by simp
      from on_matrix_loop_frame[OF s2(1)] nb have "fst s2 ! b = ?h2 ! b" by simp
      hence b2: "fst s2 ! b = fst u" using bl by simp
      have "\<forall>c\<in>set (b # bs). R (fst s1 ! c) (fst s2 ! c)"
        using s2(4) u(3) b1 b2 by simp
      moreover have "for_loop (b # bs) (\<lambda>b. on_matrix b f) (h2, g) = Inr s2"
        using s2(1) by (simp add: st2)
      ultimately show "\<exists>s2. for_loop (b # bs) (\<lambda>b. on_matrix b f) (h2, g) = Inr s2 \<and>
          length (fst s1) = length h1 \<and> length (fst s2) = length h1 \<and>
          (\<forall>c\<in>set (b # bs). R (fst s1 ! c) (fst s2 ! c))"
        using s2(2,3) by auto
    qed
  qed
qed

text \<open>The step on one buffer: the loop nest of one matrix.\<close>

lemma fill_general_Inl_indep:
  assumes "length a = length b" "fill_general idx dis bc M N (a, g) = Inl e"
  shows "fill_general idx dis bc M N (b, g) = Inl e"
  using assms replay_Inl_indep[OF assms(1)]
  by (simp add: fill_general_run run_trace_Inl)

lemma fill_general_Inr_related:
  assumes len: "length a = length b" and run: "fill_general idx dis bc M N (a, g) = Inr t"
  shows "\<exists>u. fill_general idx dis bc M N (b, g) = Inr u \<and> snd u = snd t \<and>
             agree_on_elements idx bc M N (fst t) (fst u)"
proof -
  let ?ws = "fst (general_trace idx dis bc M N g)"
  from run have rt: "replay ?ws a = Inr (fst t)" "snd t = snd (general_trace idx dis bc M N g)"
    by (simp_all add: fill_general_run run_trace_Inr)
  from replay_Inr_indep[OF len rt(1)] obtain h where h: "replay ?ws b = Inr h" by blast
  let ?u = "(h, snd (general_trace idx dis bc M N g))"
  have u: "fill_general idx dis bc M N (b, g) = Inr ?u"
    using h by (simp add: fill_general_run run_trace_Inr)
  have "same_outcome idx bc M N (replay ?ws a) (replay ?ws b)"
    by (rule replay_same_outcome[OF len]) (rule general_trace_covers)
  hence "agree_on_elements idx bc M N (fst t) h" using rt(1) h by (simp add: same_outcome_def)
  with u rt(2) show ?thesis by auto
qed

lemma create_example_matrices_same_outcome:
  fixes r :: "('g, 'v) rng"
  shows "same_outcome_batched M N lda
     (create_example_matrices r g1 M N lda bc seed)
     (create_example_matrices r g2 M N lda bc seed)"
proof -
  let ?idx = "\<lambda>(b::nat) i j. index_int (int i) (int j) lda"
  let ?f = "fill_general ?idx (draw r) 1 M N"
  let ?h1 = "map (\<lambda>b. malloc (matrix_elems lda N) (g1 b)) [0..<nat bc]"
  let ?h2 = "map (\<lambda>b. malloc (matrix_elems lda N) (g2 b)) [0..<nat bc]"
  let ?g = "engine r seed"
  let ?L = "for_loop [0..<nat bc] (\<lambda>b. on_matrix b ?f)"
  have e1: "create_example_matrices r g1 M N lda bc seed = returned_buffer (?L (?h1, ?g))"
    unfolding create_example_matrices_def by (subst fill_batched_on_matrix) simp_all
  have e2: "create_example_matrices r g2 M N lda bc seed = returned_buffer (?L (?h2, ?g))"
    unfolding create_example_matrices_def by (subst fill_batched_on_matrix) simp_all
  have rel: "(\<forall>e. ?L (?h1, ?g) = Inl e \<longrightarrow> ?L (?h2, ?g) = Inl e) \<and>
         (\<forall>s1. ?L (?h1, ?g) = Inr s1 \<longrightarrow>
              (\<exists>s2. ?L (?h2, ?g) = Inr s2 \<and>
                    length (fst s1) = length ?h1 \<and> length (fst s2) = length ?h1 \<and>
                    (\<forall>b\<in>set [0..<nat bc]. agree_on_elements ?idx 1 M N (fst s1 ! b) (fst s2 ! b))))"
  proof (rule on_matrix_loop_related)
    fix a b :: "'v list" and g e
    assume "length a = length b" "?f (a, g) = Inl e"
    thus "?f (b, g) = Inl e" by (rule fill_general_Inl_indep)
  next
    fix a b :: "'v list" and g t
    assume "length a = length b" "?f (a, g) = Inr t"
    thus "\<exists>u. ?f (b, g) = Inr u \<and> snd u = snd t \<and> agree_on_elements ?idx 1 M N (fst t) (fst u)"
      by (rule fill_general_Inr_related)
  next
    fix a b :: "'v list"
    assume "agree_on_elements ?idx 1 M N a b"
    thus "length a = length b" by (simp add: agree_on_elements_def)
  qed (simp_all add: length_malloc)
  show ?thesis
  proof (cases "?L (?h1, ?g)")
    case (Inl e)
    with rel have "?L (?h2, ?g) = Inl e" by blast
    with Inl show ?thesis by (simp add: e1 e2 same_outcome_batched_def returned_buffer_def)
  next
    case (Inr s1)
    with rel obtain s2 where s2: "?L (?h2, ?g) = Inr s2"
      "length (fst s1) = length ?h1" "length (fst s2) = length ?h1"
      "\<forall>b\<in>set [0..<nat bc]. agree_on_elements ?idx 1 M N (fst s1 ! b) (fst s2 ! b)"
      by blast
    have "list_all2 (agree_on_elements ?idx 1 M N) (fst s1) (fst s2)"
      using s2(2-4) by (simp add: list_all2_conv_all_nth)
    with Inr s2 show ?thesis by (simp add: e1 e2 same_outcome_batched_def returned_buffer_def)
  qed
qed




text \<open>
  Claim C4. The generators are deterministic: two runs of one generator with the same
  dimensions, \<open>lda\<close>, stride, batch count and seed (and the same engine) end the same way,
  whatever the fresh memory held: with the same undefined behaviour, or with buffers of
  the same length that hold the same value at every element of every matrix. Stated for
  the five strided generators and for the generator of the pointer-batched program.
\<close>

theorem generators_deterministic:
  "same_outcome (\<lambda>b i j. index_size_t (int i) (int j) lda (int b) strideA) bc M N
     (create_matrices_for_sgesvdj_strided_batched_openblas r g1 M N lda strideA bc seed)
     (create_matrices_for_sgesvdj_strided_batched_openblas r g2 M N lda strideA bc seed) \<and>
   same_outcome (\<lambda>b i j. index_int64 (int i) (int j) lda (int b) s) bc M N
     (create_example_matrices_strided r g1 M N lda s bc seed)
     (create_example_matrices_strided r g2 M N lda s bc seed) \<and>
   same_outcome (\<lambda>b i j. index_int64 (int i) (int j) lda (int b) s) bc M N
     (create_matrices_for_sgesvdj_strided_batched_rocsolver r g1 M N lda s bc seed)
     (create_matrices_for_sgesvdj_strided_batched_rocsolver r g2 M N lda s bc seed) \<and>
   same_outcome (\<lambda>b i j. index_size_t (int i) (int j) lda (int b) strideA) bc N N
     (create_matrices r g1 N lda strideA bc seed)
     (create_matrices r g2 N lda strideA bc seed) \<and>
   same_outcome (\<lambda>b i j. index_int64 (int i) (int j) lda (int b) s) bc N N
     (create_symmetric_matrices r g1 N lda s bc seed)
     (create_symmetric_matrices r g2 N lda s bc seed) \<and>
   same_outcome_batched M N lda
     (create_example_matrices r h1 M N lda bc seed)
     (create_example_matrices r h2 M N lda bc seed)"
  unfolding create_matrices_for_sgesvdj_strided_batched_openblas_def
    create_example_matrices_strided_def
    create_matrices_for_sgesvdj_strided_batched_rocsolver_def
    create_matrices_def create_symmetric_matrices_def
  by (intro conjI fill_general_same_outcome fill_symmetric_same_outcome
      create_example_matrices_same_outcome) (simp_all add: malloc_def)

lemma general_example_openblas:
  "create_matrices_for_sgesvdj_strided_batched_openblas counter_rng zero_garbage 1 2 2 4 2 42
     = Inr [42, 0, 43, 0, 44, 0, 45, 0]"
  by (simp add: create_matrices_for_sgesvdj_strided_batched_openblas_def fill_general_def
      returned_buffer_def malloc_def alloc_elems_def index_size_t_def gen_elem_def write_elem_def
      store_def counter_rng_def zero_garbage_def mul_int_def add_int_def int_ok_def to_size_t_def
      mul_size_t_def add_size_t_def upt_rec)

lemma general_example_openblas7:
  "create_matrices_for_sgesvdj_strided_batched_openblas counter_rng (\<lambda>k. 7) 1 2 2 4 2 42
     = Inr [42, 7, 43, 7, 44, 7, 45, 7]"
  by (simp add: create_matrices_for_sgesvdj_strided_batched_openblas_def fill_general_def
      returned_buffer_def malloc_def alloc_elems_def index_size_t_def gen_elem_def write_elem_def
      store_def counter_rng_def mul_int_def add_int_def int_ok_def to_size_t_def
      mul_size_t_def add_size_t_def upt_rec)

lemma batched_example:
  "create_example_matrices counter_rng (\<lambda>b k. 0) 1 2 2 2 42 = Inr [[42, 0, 43, 0], [44, 0, 45, 0]]"
  "create_example_matrices counter_rng (\<lambda>b k. 7) 1 2 2 2 42 = Inr [[42, 7, 43, 7], [44, 7, 45, 7]]"
  by (simp_all add: create_example_matrices_def fill_batched_def returned_buffer_def malloc_def
      matrix_elems_def index_int_def gen_elem_at_def write_elem_def store_def counter_rng_def
      mul_int_def add_int_def int_ok_def to_size_t_def mul_size_t_def upt_rec)

theorem generators_deterministic_witness:
  "create_matrices_for_sgesvdj_strided_batched_openblas counter_rng zero_garbage 1 2 2 4 2 42
     = Inr [42, 0, 43, 0, 44, 0, 45, 0] \<and>
   create_matrices_for_sgesvdj_strided_batched_openblas counter_rng (\<lambda>k. 7) 1 2 2 4 2 42
     = Inr [42, 7, 43, 7, 44, 7, 45, 7] \<and>
   agree_on_elements (\<lambda>b i j. index_size_t (int i) (int j) 2 (int b) 4) 2 1 2
     [42, 0, 43, 0, 44, 0, 45, 0 :: int] [42, 7, 43, 7, 44, 7, 45, 7] \<and>
   create_example_matrices counter_rng (\<lambda>b k. 0) 1 2 2 2 42 = Inr [[42, 0, 43, 0], [44, 0, 45, 0]] \<and>
   create_example_matrices counter_rng (\<lambda>b k. 7) 1 2 2 2 42 = Inr [[42, 7, 43, 7], [44, 7, 45, 7]] \<and>
   agree_on_elements (\<lambda>b i j. index_int (int i) (int j) 2) 1 1 2 [42, 0, 43, 0 :: int] [42, 7, 43, 7] \<and>
   agree_on_elements (\<lambda>b i j. index_int (int i) (int j) 2) 1 1 2 [44, 0, 45, 0 :: int] [44, 7, 45, 7]"
  using generators_deterministic[where lda = 2 and strideA = 4 and bc = 2 and M = 1 and N = 2
      and r = counter_rng and ?g1.0 = zero_garbage and seed = 42 and ?g2.0 = "\<lambda>k. 7"
      and ?h1.0 = "\<lambda>b k. 0" and ?h2.0 = "\<lambda>b k. 7"]
  by (simp add: general_example_openblas general_example_openblas7 same_outcome_def
      batched_example same_outcome_batched_def)













lemma overlap_example:
  "create_matrices_for_sgesvdj_strided_batched_openblas counter_rng zero_garbage 1 1 3
     (to_size_t 1) 2 42 = Inr [42, 43]"
  by (simp add: create_matrices_for_sgesvdj_strided_batched_openblas_def fill_general_def
      returned_buffer_def malloc_def alloc_elems_def index_size_t_def gen_elem_def write_elem_def
      store_def counter_rng_def zero_garbage_def mul_int_def add_int_def int_ok_def to_size_t_def
      mul_size_t_def add_size_t_def upt_rec)

text \<open>
  Why the stride has to reach \<open>lda * N\<close>: with \<^verbatim>\<open>--rows 1 --cols 1 --lda 3 --stride 1
  --batch-count 2\<close> the batch slots overlap. The buffer has two cells; the second one is
  both row 1 of column 0 of batch member 0 and element \<open>(0, 0)\<close> of batch member 1, which
  is written.
\<close>

lemma overlapping_slots_example:
  "create_matrices_for_sgesvdj_strided_batched_openblas counter_rng zero_garbage 1 1 3
     (to_size_t 1) 2 42 = Inr [42, 43] \<and>
   \<not> padding_kept zero_garbage 3 1 2 1 1 [42, 43]"
proof -
  have "\<not> padding_kept zero_garbage 3 1 2 1 1 [42, 43 :: int]"
  proof
    assume "padding_kept zero_garbage 3 1 2 1 1 [42, 43 :: int]"
    then have "\<forall>b < nat 2. \<forall>j < nat 1. \<forall>i. 1 \<le> int i \<and> int i < 3 \<longrightarrow>
        0 \<le> offset 3 1 b i j \<longrightarrow> nat (offset 3 1 b i j) < length [42, 43 :: int] \<longrightarrow>
        [42, 43 :: int] ! nat (offset 3 1 b i j) = zero_garbage (nat (offset 3 1 b i j))"
      unfolding padding_kept_def by (rule conjunct1)
    from this[rule_format, of 0 0 1] show False
      by (simp add: offset_def zero_garbage_def)
  qed
  with overlap_example show ?thesis by simp
qed

section \<open>Rounding to single precision\<close>

text \<open>The exponent found by the scan is the exponent of the binade.\<close>

lemma binade_lower: "- 126 \<le> binade n a"
  by (induction n) auto

lemma binade_upper: "binade n a \<le> (if n = 0 then - 126 else int n - 127)"
  by (induction n) (auto split: if_splits)

lemma binade_below: "- 126 < binade n a \<Longrightarrow> 2 powi (binade n a) \<le> a"
  by (induction n) (auto split: if_splits)

lemma binade_ge: "- 126 \<le> k \<Longrightarrow> k < int n - 126 \<Longrightarrow> 2 powi k \<le> a \<Longrightarrow> k \<le> binade n a"
proof (induction n)
  case 0 then show ?case by simp
next
  case (Suc n)
  show ?case
  proof (cases "2 powi (int n - 126) \<le> a")
    case True
    with Suc.prems show ?thesis by simp
  next
    case False
    have "k \<noteq> int n - 126" using False Suc.prems(3) by auto
    with Suc.prems have "k < int n - 126" by simp
    from Suc.IH[OF Suc.prems(1) this Suc.prems(3)] False show ?thesis by simp
  qed
qed

lemma float_exponent_range: "- 126 \<le> float_exponent a" "float_exponent a \<le> 127"
proof -
  show "- 126 \<le> float_exponent a" unfolding float_exponent_def by (rule binade_lower)
  have "binade 254 a \<le> (if (254::nat) = 0 then - 126 else int 254 - 127)" by (rule binade_upper)
  thus "float_exponent a \<le> 127" unfolding float_exponent_def by simp
qed

lemma float_exponent_below: "- 126 < float_exponent a \<Longrightarrow> 2 powi (float_exponent a) \<le> a"
  unfolding float_exponent_def by (rule binade_below)

lemma float_exponent_ge:
  assumes "- 126 \<le> k" "k \<le> 127" "2 powi k \<le> a"
  shows "k \<le> float_exponent a"
  unfolding float_exponent_def
  by (rule binade_ge) (use assms in simp_all)

lemma two_powi_mono: "m \<le> n \<Longrightarrow> (2::real) powi m \<le> 2 powi n"
  by (rule power_int_increasing) simp_all


lemma float_exponent_subnormal:
  assumes "a < 2 powi (- 126)"
  shows "float_exponent a = - 126"
proof (rule ccontr)
  assume "float_exponent a \<noteq> - 126"
  with float_exponent_range(1)[of a] have g: "- 126 < float_exponent a" by simp
  hence "(- 126::int) \<le> float_exponent a" by simp
  from float_exponent_below[OF g] two_powi_mono[OF this] assms show False by simp
qed

lemma round_half_even_of_int: "round_half_even (of_int k) = k"
  by (simp add: round_half_even_def)






lemma float_value_0: "float_value 0 = 0"
  by (simp add: float_value_def round_half_even_def)


text \<open>Integers up to \<open>2 ^ 24\<close> in magnitude are \<^verbatim>\<open>float\<close>s.\<close>

lemma float_value_int:
  assumes "\<bar>n\<bar> \<le> 2 ^ 24"
  shows "float_value (of_int n) = of_int n"
proof (cases "n = 0")
  case True
  thus ?thesis by (simp add: float_value_0)
next
  case False
  define e where "e = float_exponent \<bar>real_of_int n\<bar>"
  have a1: "2 powi 0 \<le> \<bar>real_of_int n\<bar>" using False by simp
  have e0: "0 \<le> e" unfolding e_def by (rule float_exponent_ge[OF _ _ a1]) simp_all
  have a24: "\<bar>real_of_int n\<bar> \<le> 2 ^ 24"
  proof -
    have "real_of_int \<bar>n\<bar> \<le> real_of_int (2 ^ 24)" using assms by (simp only: of_int_le_iff)
    thus ?thesis by simp
  qed
  have e24: "e \<le> 24"
  proof (rule ccontr)
    assume "\<not> e \<le> 24"
    hence g: "25 \<le> e" by simp
    hence "- 126 < e" by simp
    from float_exponent_below[OF this[unfolded e_def]] two_powi_mono[OF g]
    have "(2::real) powi 25 \<le> \<bar>real_of_int n\<bar>" unfolding e_def by simp
    with a24 show False by simp
  qed
  have v: "float_value (of_int n) =
      of_int (round_half_even (of_int n / 2 powi (e - 23))) * 2 powi (e - 23)"
    unfolding float_value_def e_def ..
  show ?thesis
  proof (cases "e \<le> 23")
    case True
    define d where "d = nat (23 - e)"
    have ed: "e - 23 = - int d" using True by (simp add: d_def)
    have u: "(2::real) powi (e - 23) = 1 / 2 ^ d"
      unfolding ed by (simp add: power_int_minus divide_inverse)
    have "real_of_int n / 2 powi (e - 23) = of_int (n * 2 ^ d)" unfolding u by simp
    hence "round_half_even (real_of_int n / 2 powi (e - 23)) = n * 2 ^ d"
      by (simp only: round_half_even_of_int)
    thus ?thesis unfolding v by (simp add: u)
  next
    case False
    with e24 have e: "e = 24" by simp
    hence "- 126 < float_exponent \<bar>real_of_int n\<bar>" by (simp add: e_def)
    from float_exponent_below[OF this] e have "(2::real) powi 24 \<le> \<bar>real_of_int n\<bar>"
      by (simp add: e_def)
    with a24 have "\<bar>real_of_int n\<bar> = 2 ^ 24" by simp
    hence "real_of_int \<bar>n\<bar> = real_of_int (2 ^ 24)" by simp
    hence "\<bar>n\<bar> = 2 ^ 24" by (simp only: of_int_eq_iff)
    hence "n = 2 * 8388608 \<or> n = 2 * (- 8388608)" by (simp add: abs_if split: if_splits)
    then obtain m where m: "n = 2 * m" by blast
    have "real_of_int n / 2 powi (e - 23) = of_int m" unfolding e m by simp
    hence "round_half_even (real_of_int n / 2 powi (e - 23)) = m"
      by (simp only: round_half_even_of_int)
    thus ?thesis unfolding v by (simp add: e m)
  qed
qed


lemma float_of_int_exact: "\<bar>n\<bar> \<le> 2 ^ 24 \<Longrightarrow> float_of_int n = of_int n"
  unfolding float_of_int_def by (rule float_value_int)









section \<open>The statistics of the report\<close>














section \<open>The warm-up loop\<close>

text \<open>
  The loop function is unfolded by hand: its equation would rewrite for ever.
\<close>

declare warmup_loop.simps [simp del]

lemma warmup_count_step: "warmup_count (warmup_step action now t0 s) = warmup_count s + 1"
  by (simp add: warmup_step_def)

lemma warmup_count_funpow:
  "warmup_count ((warmup_step action now t0 ^^ n) s) = warmup_count s + int n"
  by (induction n) (simp_all add: warmup_count_step)

lemma warmup_loop_Inr:
  "warmup_loop action now thr t0 s = Inr s' \<Longrightarrow>
     \<exists>n. s' = (warmup_step action now t0 ^^ n) s \<and>
         \<not> (warmup_elapsed s' < thr \<or> warmup_count s' = 0) \<and>
         (\<forall>k<n. warmup_elapsed ((warmup_step action now t0 ^^ k) s) < thr \<or>
                 warmup_count ((warmup_step action now t0 ^^ k) s) = 0)"
proof (induction action now thr t0 s rule: warmup_loop.induct)
  case (1 action now thr t0 s)
  let ?f = "warmup_step action now t0"
  show ?case
  proof (cases "warmup_elapsed s < thr \<or> warmup_count s = 0")
    case False
    with "1.prems" have "s' = s" by (subst (asm) warmup_loop.simps) simp
    with False have "s' = (?f ^^ 0) s \<and> \<not> (warmup_elapsed s' < thr \<or> warmup_count s' = 0) \<and>
        (\<forall>k<0. warmup_elapsed ((?f ^^ k) s) < thr \<or> warmup_count ((?f ^^ k) s) = 0)"
      by simp
    thus ?thesis by blast
  next
    case True
    have ok: "int_ok (warmup_count s + 1)"
      using "1.prems" True by (subst (asm) warmup_loop.simps) (simp split: if_splits)
    have run: "warmup_loop action now thr t0 (?f s) = Inr s'"
      using "1.prems" True ok by (subst (asm) warmup_loop.simps) simp
    from "1.IH"[OF True ok run] obtain n where n:
      "s' = (?f ^^ n) (?f s)" "\<not> (warmup_elapsed s' < thr \<or> warmup_count s' = 0)"
      "\<forall>k<n. warmup_elapsed ((?f ^^ k) (?f s)) < thr \<or> warmup_count ((?f ^^ k) (?f s)) = 0"
      by blast
    have a: "s' = (?f ^^ Suc n) s" using n(1) by (simp add: funpow_swap1)
    have b: "\<forall>k<Suc n. warmup_elapsed ((?f ^^ k) s) < thr \<or> warmup_count ((?f ^^ k) s) = 0"
    proof (intro allI impI)
      fix k assume k: "k < Suc n"
      show "warmup_elapsed ((?f ^^ k) s) < thr \<or> warmup_count ((?f ^^ k) s) = 0"
      proof (cases k)
        case 0 thus ?thesis using True by simp
      next
        case (Suc j)
        with k have "j < n" by simp
        with n(3) have "warmup_elapsed ((?f ^^ j) (?f s)) < thr \<or> warmup_count ((?f ^^ j) (?f s)) = 0"
          by blast
        thus ?thesis using Suc by (simp add: funpow_swap1)
      qed
    qed
    from a n(2) b show ?thesis by blast
  qed
qed


lemma reps_lapacke_batch: "reps (lapacke_batch routine report status bc w) = Suc (reps w)"
  by (simp add: lapacke_batch_def)

lemma reps_rocsolver_batch: "reps (rocsolver_batch status bc w) = Suc (reps w)"
  by (simp add: rocsolver_batch_def)





lemma warmup_count_after: "warmup_count (warmup_after action now w n) = int n"
  by (simp add: warmup_after_def warmup_count_funpow warmup_init_def)

lemma warmup_phase_Inr:
  assumes "warmup_phase action now wt w = Inr s"
  shows "\<exists>n\<ge>1. s = warmup_after action now w n \<and> warmup_count s = int n \<and>
           float_of_int wt \<le> warmup_elapsed s \<and>
           (\<forall>k. 1 \<le> k \<and> k < n \<longrightarrow>
                warmup_elapsed (warmup_after action now w k) < float_of_int wt)"
proof -
  from warmup_loop_Inr[OF assms[unfolded warmup_phase_def]] obtain n where n:
    "s = warmup_after action now w n"
    "\<not> (warmup_elapsed s < float_of_int wt \<or> warmup_count s = 0)"
    "\<forall>k<n. warmup_elapsed (warmup_after action now w k) < float_of_int wt \<or>
           warmup_count (warmup_after action now w k) = 0"
    unfolding warmup_after_def by blast
  have c: "warmup_count s = int n" using n(1) by (simp add: warmup_count_after)
  with n(2) have n1: "1 \<le> n" by simp
  have e: "float_of_int wt \<le> warmup_elapsed s" using n(2) by simp
  have "\<forall>k. 1 \<le> k \<and> k < n \<longrightarrow> warmup_elapsed (warmup_after action now w k) < float_of_int wt"
  proof (intro allI impI)
    fix k assume k: "1 \<le> k \<and> k < n"
    with n(3) have "warmup_elapsed (warmup_after action now w k) < float_of_int wt \<or>
           warmup_count (warmup_after action now w k) = 0" by blast
    with k show "warmup_elapsed (warmup_after action now w k) < float_of_int wt"
      by (simp add: warmup_count_after)
  qed
  with n(1) c n1 e show ?thesis by blast
qed


lemma float_of_int_small: "float_of_int 0 = 0" "float_of_int 2 = 2"
  using float_of_int_exact[of 0] float_of_int_exact[of 2] by simp_all







section \<open>Failures of the library inside the loops\<close>

declare show_nat.simps [simp del]

lemma fold_report:
  "fold (\<lambda>b w'. if c b then print_line (l b) w' else w') xs w =
     w\<lparr>console := console w @ map l (filter c xs)\<rparr>"
  by (induction xs arbitrary: w) (simp_all add: print_line_def)

lemma lapacke_batch_world:
  "lapacke_batch routine report status bc w =
     w\<lparr>console := console w @
          map (\<lambda>b. failure_line routine b (status (reps w) b))
            (filter (\<lambda>b. status (reps w) b \<noteq> 0 \<and> report) [0..<nat bc]),
       reps := Suc (reps w)\<rparr>"
  unfolding lapacke_batch_def fold_report by simp

lemma lapacke_batch_reports:
  assumes "b < nat bc" "status (reps w) b \<noteq> 0"
  shows "failure_line routine b (status (reps w) b) \<in>
           set (console (lapacke_batch routine True status bc w))"
  using assms by (simp add: lapacke_batch_world)

lemma lapacke_batch_keeps:
  "set (console w) \<subseteq> set (console (lapacke_batch routine report status bc w))"
  by (simp add: lapacke_batch_world)

lemma lapacke_batch_silent:
  "console (lapacke_batch routine False status bc w) = console w"
  by (simp add: lapacke_batch_world)

lemma rocsolver_batch_silent: "console (rocsolver_batch status bc w) = console w"
  by (simp add: rocsolver_batch_def)

lemma console_read_clock: "console (snd (read_clock now w)) = console w"
  by (simp add: read_clock_def)

text \<open>Repeating a step that executes the library once.\<close>

lemma reps_funpow:
  fixes F :: "world \<Rightarrow> world"
  assumes "\<And>w. reps (F w) = Suc (reps w)"
  shows "reps ((F ^^ n) w) = reps w + n"
  by (induction n) (simp_all add: assms)

lemma console_funpow_keeps:
  fixes F :: "world \<Rightarrow> world"
  assumes "\<And>w. set (console w) \<subseteq> set (console (F w))"
  shows "set (console w) \<subseteq> set (console ((F ^^ n) w))"
proof (induction n)
  case 0 show ?case by simp
next
  case (Suc n)
  have "set (console ((F ^^ n) w)) \<subseteq> set (console (F ((F ^^ n) w)))" by (rule assms)
  with Suc show ?case by simp
qed

lemma console_funpow_silent:
  fixes F :: "world \<Rightarrow> world"
  assumes "\<And>w. console (F w) = console w"
  shows "console ((F ^^ n) w) = console w"
  by (induction n) (simp_all add: assms)

lemma console_funpow_reports:
  fixes F :: "world \<Rightarrow> world"
  assumes r: "\<And>w. reps (F w) = Suc (reps w)"
    and k: "\<And>w. set (console w) \<subseteq> set (console (F w))"
    and p: "\<And>w b. b < nat bc \<Longrightarrow> status (reps w) b \<noteq> 0 \<Longrightarrow>
                l b (status (reps w) b) \<in> set (console (F w))"
    and "m < n" "b < nat bc" "status (reps w + m) b \<noteq> 0"
  shows "l b (status (reps w + m) b) \<in> set (console ((F ^^ n) w))"
  using assms(4-)
proof (induction n)
  case 0 thus ?case by simp
next
  case (Suc n)
  show ?case
  proof (cases "m = n")
    case True
    have "reps ((F ^^ n) w) = reps w + m" using True by (simp add: reps_funpow[of F, OF r])
    with p[of b "(F ^^ n) w"] Suc.prems show ?thesis by simp
  next
    case False
    with Suc.prems have "m < n" by simp
    from Suc.IH[OF this Suc.prems(2,3)] k[of "(F ^^ n) w"] show ?thesis by auto
  qed
qed

text \<open>The worlds of the two loops are iterations of a step on the world.\<close>

lemma measurement_loop_world:
  "fst (measurement_loop action now its s) =
     ((\<lambda>w. snd (read_clock now (action (snd (read_clock now w))))) ^^ nat its) (fst s)"
proof -
  have "fst (fold (\<lambda>iter. timed_iteration action now) [0..<n] s) =
     ((\<lambda>w. snd (read_clock now (action (snd (read_clock now w))))) ^^ n) (fst s)" for n
    by (induction n) (simp_all add: timed_iteration_def Let_def)
  thus ?thesis by (simp add: measurement_loop_def)
qed

lemma measurement_loop_samples:
  "length (snd (measurement_loop action now its s)) = length (snd s) + nat its"
proof -
  have "length (snd (fold (\<lambda>iter. timed_iteration action now) [0..<n] s)) = length (snd s) + n" for n
    by (induction n) (simp_all add: timed_iteration_def Let_def)
  thus ?thesis by (simp add: measurement_loop_def)
qed

lemma warmup_after_world:
  "ws_world (warmup_after action now w n) =
     ((\<lambda>w. snd (read_clock now (action w))) ^^ n) (snd (read_clock now w))"
  unfolding warmup_after_def
  by (induction n) (simp_all add: warmup_init_def warmup_step_def)


lemma timed_loop_reports:
  assumes "m < nat its" "b < nat bc" "status (reps w + m) b \<noteq> 0"
  shows "failure_line routine b (status (reps w + m) b) \<in>
     set (console (fst (measurement_loop (lapacke_batch routine True status bc) now its (w, ts))))"
  unfolding measurement_loop_world fst_conv
proof (rule console_funpow_reports[where bc = bc and status = status and m = m and b = b
      and w = w and l = "failure_line routine"])
  show "m < nat its" "b < nat bc" "status (reps w + m) b \<noteq> 0" by (rule assms)+
next
  fix w :: world
  show "reps (snd (read_clock now (lapacke_batch routine True status bc (snd (read_clock now w))))) =
      Suc (reps w)"
    by (simp add: read_clock_def lapacke_batch_world)
  show "set (console w) \<subseteq>
      set (console (snd (read_clock now (lapacke_batch routine True status bc (snd (read_clock now w))))))"
    by (simp add: read_clock_def lapacke_batch_world)
  fix b assume "b < nat bc" "status (reps w) b \<noteq> 0"
  thus "failure_line routine b (status (reps w) b) \<in>
      set (console (snd (read_clock now (lapacke_batch routine True status bc (snd (read_clock now w))))))"
    by (simp add: read_clock_def lapacke_batch_world)
qed

lemma warmup_after_reports:
  assumes "m < n" "b < nat bc" "status (reps w + m) b \<noteq> 0"
  shows "failure_line routine b (status (reps w + m) b) \<in>
     set (console (ws_world (warmup_after (lapacke_batch routine True status bc) now w n)))"
proof -
  have "failure_line routine b (status (reps (snd (read_clock now w)) + m) b) \<in>
     set (console (((\<lambda>w. snd (read_clock now (lapacke_batch routine True status bc w))) ^^ n)
        (snd (read_clock now w))))"
  proof (rule console_funpow_reports[where bc = bc and status = status and m = m and b = b
      and w = "snd (read_clock now w)" and l = "failure_line routine"])
    show "m < n" "b < nat bc" by (rule assms)+
    show "status (reps (snd (read_clock now w)) + m) b \<noteq> 0"
      using assms(3) by (simp add: read_clock_def)
  next
    fix w :: world
    show "reps (snd (read_clock now (lapacke_batch routine True status bc w))) = Suc (reps w)"
      by (simp add: read_clock_def lapacke_batch_world)
    show "set (console w) \<subseteq>
        set (console (snd (read_clock now (lapacke_batch routine True status bc w))))"
      by (simp add: read_clock_def lapacke_batch_world)
    fix b assume "b < nat bc" "status (reps w) b \<noteq> 0"
    thus "failure_line routine b (status (reps w) b) \<in>
        set (console (snd (read_clock now (lapacke_batch routine True status bc w))))"
      by (simp add: read_clock_def lapacke_batch_world)
  qed
  thus ?thesis by (simp add: warmup_after_world read_clock_def)
qed

lemma warmup_phase_reports:
  assumes "warmup_phase (lapacke_batch routine True status bc) now wt w = Inr s"
    and "m < nat (warmup_count s)" "b < nat bc" "status (reps w + m) b \<noteq> 0"
  shows "failure_line routine b (status (reps w + m) b) \<in> set (console (ws_world s))"
proof -
  from warmup_phase_Inr[OF assms(1)] obtain n where
    n: "s = warmup_after (lapacke_batch routine True status bc) now w n" "warmup_count s = int n"
    by blast
  from assms(2) n(2) have "m < n" by simp
  from warmup_after_reports[of m n b bc status w routine now, OF this assms(3,4)]
  show ?thesis unfolding n(1) .
qed

lemma timed_loop_reps:
  assumes "\<And>w. reps (action w) = Suc (reps w)"
  shows "reps (fst (measurement_loop action now its (w, ts))) = reps w + nat its"
  unfolding measurement_loop_world fst_conv
  by (rule reps_funpow) (simp add: read_clock_def assms)

lemma timed_loop_silent:
  assumes "\<And>w. console (action w) = console w"
  shows "console (fst (measurement_loop action now its (w, ts))) = console w"
  unfolding measurement_loop_world fst_conv
  by (rule console_funpow_silent) (simp add: read_clock_def assms)

lemma warmup_phase_silent:
  assumes "\<And>w. console (action w) = console w"
    and "warmup_phase action now wt w = Inr s"
  shows "console (ws_world s) = console w"
proof -
  from warmup_phase_Inr[OF assms(2)] obtain n where n: "s = warmup_after action now w n"
    by blast
  have "console (((\<lambda>w. snd (read_clock now (action w))) ^^ n) (snd (read_clock now w))) =
      console (snd (read_clock now w))"
    by (rule console_funpow_silent) (simp add: read_clock_def assms(1))
  thus ?thesis unfolding n warmup_after_world by (simp add: read_clock_def)
qed

text \<open>
  Claim C7, as the code has it. In every program the measurement loop runs the configured
  number of repetitions (none for a negative count), executes the library once per
  repetition and records one timing sample per repetition, whatever the statuses are. A
  non-zero status of batch member \<open>b\<close> is printed with \<open>b\<close> and the status by both loops of
  the OpenBLAS SVD program and by the warm-up loop of the OpenBLAS eigensolver program.
  It is not printed by the timed loop of the OpenBLAS eigensolver program, and not by
  either loop of the rocSOLVER programs, which never read the status: these loops leave
  the console as it was.
\<close>

theorem failures_reported_by_cpu_loops:
  "length (snd (measurement_loop action now its (w, ts))) = length ts + nat its \<and>
   reps (fst (measurement_loop (openblas_sgesvd_action status bc) now its (w, ts))) = reps w + nat its \<and>
   reps (fst (measurement_loop (openblas_ssyev_timed_action status bc) now its (w, ts))) = reps w + nat its \<and>
   reps (fst (measurement_loop (rocsolver_batch status bc) now its (w, ts))) = reps w + nat its \<and>
   (\<forall>m b. m < nat its \<and> b < nat bc \<and> status (reps w + m) b \<noteq> 0 \<longrightarrow>
      failure_line ''LAPACKE_sgesvd'' b (status (reps w + m) b) \<in>
        set (console (fst (measurement_loop (openblas_sgesvd_action status bc) now its (w, ts))))) \<and>
   (warmup_phase (openblas_sgesvd_action status bc) now wt w = Inr s1 \<longrightarrow>
      (\<forall>m b. m < nat (warmup_count s1) \<and> b < nat bc \<and> status (reps w + m) b \<noteq> 0 \<longrightarrow>
         failure_line ''LAPACKE_sgesvd'' b (status (reps w + m) b) \<in> set (console (ws_world s1)))) \<and>
   (warmup_phase (openblas_ssyev_warmup_action status bc) now wt w = Inr s2 \<longrightarrow>
      (\<forall>m b. m < nat (warmup_count s2) \<and> b < nat bc \<and> status (reps w + m) b \<noteq> 0 \<longrightarrow>
         failure_line ''LAPACKE_ssyev'' b (status (reps w + m) b) \<in> set (console (ws_world s2)))) \<and>
   console (fst (measurement_loop (openblas_ssyev_timed_action status bc) now its (w, ts))) = console w \<and>
   console (fst (measurement_loop (rocsolver_batch status bc) now its (w, ts))) = console w \<and>
   (warmup_phase (rocsolver_batch status bc) now wt w = Inr s3 \<longrightarrow> console (ws_world s3) = console w)"
proof -
  have 1: "length (snd (measurement_loop action now its (w, ts))) = length ts + nat its"
    using measurement_loop_samples[of action now its "(w, ts)"] by simp
  have 2: "reps (fst (measurement_loop (openblas_sgesvd_action status bc) now its (w, ts))) =
      reps w + nat its"
    unfolding openblas_sgesvd_action_def by (rule timed_loop_reps) (rule reps_lapacke_batch)
  have 3: "reps (fst (measurement_loop (openblas_ssyev_timed_action status bc) now its (w, ts))) =
      reps w + nat its"
    unfolding openblas_ssyev_timed_action_def by (rule timed_loop_reps) (rule reps_lapacke_batch)
  have 4: "reps (fst (measurement_loop (rocsolver_batch status bc) now its (w, ts))) = reps w + nat its"
    by (rule timed_loop_reps) (rule reps_rocsolver_batch)
  have 5: "\<forall>m b. m < nat its \<and> b < nat bc \<and> status (reps w + m) b \<noteq> 0 \<longrightarrow>
      failure_line ''LAPACKE_sgesvd'' b (status (reps w + m) b) \<in>
        set (console (fst (measurement_loop (openblas_sgesvd_action status bc) now its (w, ts))))"
    unfolding openblas_sgesvd_action_def using timed_loop_reports by blast
  have 6: "warmup_phase (openblas_sgesvd_action status bc) now wt w = Inr s1 \<longrightarrow>
      (\<forall>m b. m < nat (warmup_count s1) \<and> b < nat bc \<and> status (reps w + m) b \<noteq> 0 \<longrightarrow>
         failure_line ''LAPACKE_sgesvd'' b (status (reps w + m) b) \<in> set (console (ws_world s1)))"
    unfolding openblas_sgesvd_action_def using warmup_phase_reports by blast
  have 7: "warmup_phase (openblas_ssyev_warmup_action status bc) now wt w = Inr s2 \<longrightarrow>
      (\<forall>m b. m < nat (warmup_count s2) \<and> b < nat bc \<and> status (reps w + m) b \<noteq> 0 \<longrightarrow>
         failure_line ''LAPACKE_ssyev'' b (status (reps w + m) b) \<in> set (console (ws_world s2)))"
    unfolding openblas_ssyev_warmup_action_def using warmup_phase_reports by blast
  have 8: "console (fst (measurement_loop (openblas_ssyev_timed_action status bc) now its (w, ts))) =
      console w"
    unfolding openblas_ssyev_timed_action_def by (rule timed_loop_silent) (rule lapacke_batch_silent)
  have 9: "console (fst (measurement_loop (rocsolver_batch status bc) now its (w, ts))) = console w"
    by (rule timed_loop_silent) (rule rocsolver_batch_silent)
  have 10: "warmup_phase (rocsolver_batch status bc) now wt w = Inr s3 \<longrightarrow>
      console (ws_world s3) = console w"
    using warmup_phase_silent[of "rocsolver_batch status bc" now wt w s3, OF rocsolver_batch_silent]
    by blast
  from 1 2 3 4 5 6 7 8 9 10 show ?thesis by (intro conjI)
qed


lemma show_int_small: "show_int 1 = ''1''" "show_int 3 = ''3''" "show_int 0 = ''0''"
  by (simp_all add: show_int_def show_nat.simps digit_char_def)

lemma failure_line_example:
  "failure_line ''LAPACKE_sgesvd'' 1 3 = ''LAPACKE_sgesvd failed for matrix 1 with error 3''"
  by (simp add: failure_line_def show_int_small)

lemma failure_line_example_Suc:
  "failure_line ''LAPACKE_sgesvd'' (Suc 0) 3 = ''LAPACKE_sgesvd failed for matrix 1 with error 3''"
  using failure_line_example by simp

lemma sgesvd_example_timed:
  "fst (measurement_loop (openblas_sgesvd_action second_fails 2) real 1 (start_world, [])) =
     \<lparr> console = [''LAPACKE_sgesvd failed for matrix 1 with error 3''], ticks = 2, reps = 1 \<rparr>"
  by (simp add: measurement_loop_def timed_iteration_def Let_def read_clock_def
      openblas_sgesvd_action_def lapacke_batch_def print_line_def failure_line_example_Suc
      second_fails_def start_world_def upt_rec)

lemma sgesvd_example_warmup:
  "warmup_phase (openblas_sgesvd_action second_fails 2) real 0 start_world =
     Inr \<lparr> ws_world = \<lparr> console = [''LAPACKE_sgesvd failed for matrix 1 with error 3''],
                           ticks = 2, reps = 1 \<rparr>,
           warmup_count = 1, warmup_elapsed = 1 \<rparr>"
  by (simp add: warmup_phase_def warmup_loop.simps warmup_init_def warmup_step_def read_clock_def
      openblas_sgesvd_action_def lapacke_batch_def print_line_def failure_line_example_Suc
      second_fails_def start_world_def int_ok_def float_of_int_small upt_rec)

theorem failures_reported_by_cpu_loops_witness:
  "(0::nat) < nat 1 \<and> (1::nat) < nat 2 \<and> second_fails (reps start_world + 0) 1 = 3 \<and>
   second_fails (reps start_world + 0) 1 \<noteq> 0 \<and>
   warmup_phase (openblas_sgesvd_action second_fails 2) real 0 start_world =
     Inr \<lparr> ws_world = \<lparr> console = [''LAPACKE_sgesvd failed for matrix 1 with error 3''],
                           ticks = 2, reps = 1 \<rparr>,
           warmup_count = 1, warmup_elapsed = 1 \<rparr> \<and>
   failure_line ''LAPACKE_sgesvd'' 1 3 \<in>
     set (console (fst (measurement_loop (openblas_sgesvd_action second_fails 2) real 1
        (start_world, [])))) \<and>
   failure_line ''LAPACKE_sgesvd'' 1 3 \<in>
     set [''LAPACKE_sgesvd failed for matrix 1 with error 3''] \<and>
   length (snd (measurement_loop (openblas_sgesvd_action second_fails 2) real 1 (start_world, []))) = 1"
proof -
  note t = failures_reported_by_cpu_loops[of "openblas_sgesvd_action second_fails 2" real 1
      start_world "[]" second_fails 2 0
      "\<lparr> ws_world = \<lparr> console = [''LAPACKE_sgesvd failed for matrix 1 with error 3''],
                           ticks = 2, reps = 1 \<rparr>,
           warmup_count = 1, warmup_elapsed = 1 \<rparr>"]
  have v: "second_fails (reps start_world + 0) 1 = 3" by (simp add: second_fails_def)
  have h: "(0::nat) < nat 1 \<and> (1::nat) < nat 2 \<and> second_fails (reps start_world + 0) 1 \<noteq> 0"
    by (simp add: second_fails_def)
  have h': "(0::nat) < nat (warmup_count \<lparr> ws_world = \<lparr> console = [''LAPACKE_sgesvd failed for matrix 1 with error 3''],
                           ticks = 2, reps = 1 \<rparr>,
           warmup_count = 1, warmup_elapsed = 1 \<rparr>) \<and> (1::nat) < nat 2 \<and>
       second_fails (reps start_world + 0) 1 \<noteq> 0"
    by (simp add: second_fails_def)
  from t have a: "length (snd (measurement_loop (openblas_sgesvd_action second_fails 2) real 1
      (start_world, []))) = length ([] :: real list) + nat 1"
    by (rule conjunct1)
  from t have "\<forall>m b. m < nat 1 \<and> b < nat 2 \<and> second_fails (reps start_world + m) b \<noteq> 0 \<longrightarrow>
      failure_line ''LAPACKE_sgesvd'' b (second_fails (reps start_world + m) b) \<in>
        set (console (fst (measurement_loop (openblas_sgesvd_action second_fails 2) real 1
          (start_world, []))))"
    by blast
  from this[rule_format, OF h] have b: "failure_line ''LAPACKE_sgesvd'' 1 3 \<in>
     set (console (fst (measurement_loop (openblas_sgesvd_action second_fails 2) real 1
        (start_world, []))))"
    unfolding v .
  from t sgesvd_example_warmup have
    "\<forall>m b. m < nat (warmup_count \<lparr> ws_world = \<lparr> console = [''LAPACKE_sgesvd failed for matrix 1 with error 3''],
                           ticks = 2, reps = 1 \<rparr>,
           warmup_count = 1, warmup_elapsed = 1 \<rparr>) \<and> b < nat 2 \<and>
           second_fails (reps start_world + m) b \<noteq> 0 \<longrightarrow>
      failure_line ''LAPACKE_sgesvd'' b (second_fails (reps start_world + m) b) \<in>
        set (console (ws_world \<lparr> ws_world = \<lparr> console = [''LAPACKE_sgesvd failed for matrix 1 with error 3''],
                           ticks = 2, reps = 1 \<rparr>,
           warmup_count = 1, warmup_elapsed = 1 \<rparr>))"
    by blast
  from this[rule_format, OF h'] have c: "failure_line ''LAPACKE_sgesvd'' 1 3 \<in>
     set [''LAPACKE_sgesvd failed for matrix 1 with error 3'']"
    unfolding v by simp
  from a b c v h sgesvd_example_warmup show ?thesis by simp
qed

text \<open>
  The claim as stated fails for the rocSOLVER programs: a library that fails on every
  batch member of every execution leaves the console of both loops empty.
\<close>

theorem rocsolver_status_unreported_counterexample:
  "failing_status 0 0 \<noteq> 0 \<and>
   console (fst (measurement_loop (rocsolver_batch failing_status 1) real 1 (start_world, []))) = [] \<and>
   length (snd (measurement_loop (rocsolver_batch failing_status 1) real 1 (start_world, []))) = 1 \<and>
   warmup_phase (rocsolver_batch failing_status 1) real 0 start_world =
     Inr \<lparr> ws_world = \<lparr> console = [], ticks = 2, reps = 1 \<rparr>,
           warmup_count = 1, warmup_elapsed = 1 \<rparr>"
  by (simp add: failing_status_def measurement_loop_def timed_iteration_def Let_def read_clock_def
      rocsolver_batch_def start_world_def warmup_phase_def warmup_loop.simps warmup_init_def
      warmup_step_def int_ok_def float_of_int_small upt_rec)

section \<open>The end-to-end scenario of the eigensolver benchmark\<close>

lemma scenario_hA:
  "\<exists>hA. openblas_ssyev_hA r garbage ssyev_scenario = Inr hA"
  by (simp add: openblas_ssyev_hA_def ssyev_scenario_def openblas_strided_layout_def Let_def
      clamp_lda_def strideA_size_t_def mul_int_def add_int_def int_ok_def to_size_t_def mul_size_t_def
      add_size_t_def create_matrices_def fill_symmetric_def returned_buffer_def malloc_def
      alloc_elems_def index_size_t_def sym_diag_def sym_pair_def write_elem_def store_def
      upt_rec split: prod.splits)

lemma warmup_phase_once:
  assumes "float_of_int wt \<le>
      warmup_elapsed (warmup_step action now (fst (read_clock now w)) (warmup_init now w))"
  shows "warmup_phase action now wt w =
      Inr (warmup_step action now (fst (read_clock now w)) (warmup_init now w))"
proof -
  let ?t0 = "fst (read_clock now w)"
  let ?s1 = "warmup_step action now ?t0 (warmup_init now w)"
  have c1: "warmup_count ?s1 \<noteq> 0" by (simp add: warmup_step_def warmup_init_def)
  have "\<not> (warmup_elapsed ?s1 < float_of_int wt \<or> warmup_count ?s1 = 0)"
    using assms c1 by (simp add: not_less)
  hence "warmup_loop action now (float_of_int wt) ?t0 ?s1 = Inr ?s1"
    by (subst warmup_loop.simps) (simp only: if_False)
  moreover have "warmup_elapsed (warmup_init now w) < float_of_int wt \<or>
      warmup_count (warmup_init now w) = 0"
    by (simp add: warmup_init_def)
  moreover have "int_ok (warmup_count (warmup_init now w) + 1)"
    by (simp add: warmup_init_def int_ok_def)
  ultimately have "warmup_loop action now (float_of_int wt) ?t0 (warmup_init now w) = Inr ?s1"
    by (subst warmup_loop.simps) (simp only: if_True)
  thus ?thesis by (simp only: warmup_phase_def)
qed

lemma scenario_warmup:
  assumes "now 0 \<le> now (Suc 0)"
  shows "warmup_phase (openblas_ssyev_warmup_action status 1) now 0
           (print_line ''Performing warm-up for 0 ms...'' start_world) =
         Inr \<lparr> ws_world = \<lparr> console = ''Performing warm-up for 0 ms...'' #
                     (if status 0 0 \<noteq> 0 then [failure_line ''LAPACKE_ssyev'' 0 (status 0 0)] else []),
                   ticks = 2, reps = Suc 0 \<rparr>,
               warmup_count = 1, warmup_elapsed = now (Suc 0) - now 0 \<rparr>"
proof -
  let ?w = "print_line ''Performing warm-up for 0 ms...'' start_world"
  let ?A = "openblas_ssyev_warmup_action status 1"
  have a: "warmup_step ?A now (fst (read_clock now ?w)) (warmup_init now ?w) =
      \<lparr> ws_world = \<lparr> console = ''Performing warm-up for 0 ms...'' #
                     (if status 0 0 \<noteq> 0 then [failure_line ''LAPACKE_ssyev'' 0 (status 0 0)] else []),
                   ticks = 2, reps = Suc 0 \<rparr>,
               warmup_count = 1, warmup_elapsed = now (Suc 0) - now 0 \<rparr>"
    by (simp add: warmup_init_def warmup_step_def read_clock_def
        openblas_ssyev_warmup_action_def lapacke_batch_world print_line_def start_world_def)
  have "float_of_int 0 \<le> warmup_elapsed (warmup_step ?A now (fst (read_clock now ?w)) (warmup_init now ?w))"
    unfolding a using assms by (simp add: float_of_int_small)
  from warmup_phase_once[OF this] show ?thesis unfolding a .
qed



lemma show_int_digits:
  "show_int 0 = ''0''" "show_int 1 = ''1''" "show_int 4 = ''4''" "show_int (- 2) = ''-2''"
  by (simp_all add: show_int_def show_nat.simps digit_char_def)








section \<open>A run without timed iterations\<close>

lemma empty_statistics: "avg_time_of [] = NaN" "std_dev_of [] = NaN"
  by (simp_all add: avg_time_of_def std_dev_of_def)

lemma measurement_loop_none: "its \<le> 0 \<Longrightarrow> measurement_loop action now its s = s"
  by (simp add: measurement_loop_def)

lemma report_statistics_lines:
  "''Average execution time: '' @ fmt 3 avg @ '' ms'' \<in>
     set (openblas_ssyev_report fmt N bc wt wc its avg sd)"
  "''Standard deviation: '' @ fmt 3 sd @ '' ms'' \<in>
     set (openblas_ssyev_report fmt N bc wt wc its avg sd)"
  by (simp_all add: openblas_ssyev_report_def)

lemma zero_iterations_report:
  assumes "iterations a \<le> 0"
    and "bench_openblas_ssyev r garbage now status fmt a w = Inr w'"
  shows "''Average execution time: '' @ fmt 3 NaN @ '' ms'' \<in> set (console w') \<and>
         ''Standard deviation: '' @ fmt 3 NaN @ '' ms'' \<in> set (console w')"
proof (cases "openblas_ssyev_hA r garbage a")
  case (Inl e)
  with assms(2) show ?thesis by (simp add: bench_openblas_ssyev_def)
next
  case hA: (Inr hA)
  show ?thesis
  proof (cases "warmup_phase (openblas_ssyev_warmup_action status (batch_count a)) now (warmup_time a)
          (print_line (''Performing warm-up for '' @ show_int (warmup_time a) @ '' ms...'') w)")
    case (Inl e)
    with assms(2) hA show ?thesis by (simp add: bench_openblas_ssyev_def)
  next
    case (Inr s)
    let ?W = "print_line (''Completed '' @ show_int (warmup_count s) @ '' warm-up iterations in '' @
                fmt 2 (Finite (warmup_elapsed s)) @ '' ms'') (ws_world s)"
    let ?R = "openblas_ssyev_report fmt (cols a) (batch_count a) (warmup_time a)
                (warmup_count s) (iterations a) NaN NaN"
    have "Inr (?W \<lparr> console := console ?W @ ?R \<rparr>) = Inr w'"
      using assms(2)
      unfolding bench_openblas_ssyev_def hA Inr sum.case Let_def measurement_loop_none[OF assms(1)]
        fst_conv snd_conv empty_statistics
      by simp
    hence "?W \<lparr> console := console ?W @ ?R \<rparr> = w'" by (simp only: sum.inject)
    hence c: "console w' = console ?W @ ?R" by auto
    have "''Average execution time: '' @ fmt 3 NaN @ '' ms'' \<in> set ?R"
      "''Standard deviation: '' @ fmt 3 NaN @ '' ms'' \<in> set ?R"
      by (rule report_statistics_lines)+
    thus ?thesis unfolding c set_append Un_iff by blast
  qed
qed

lemma no_iterations_fields:
  "cols no_iterations = 4" "batch_count no_iterations = 1" "iterations no_iterations = 0"
  "warmup_time no_iterations = 0"
  by (simp_all add: no_iterations_def ssyev_scenario_def)

lemma no_iterations_run:
  "bench_openblas_ssyev counter_rng zero_garbage real no_failure fmt_floor no_iterations start_world =
     Inr \<lparr> console =
             [''Performing warm-up for 0 ms...'', ''Completed 1 warm-up iterations in 1 ms'',
              [], ''===== Performance Results (CPU - OpenBLAS) ====='', ''Matrix size: 4 x 4'',
              ''Batch count: 1'', ''Warm-up time: 0 ms (completed 1 iterations)'',
              ''Timing iterations: 0'', ''Average execution time: nan ms'',
              ''Standard deviation: nan ms'', ''=============================================='',
              []],
           ticks = 2, reps = Suc 0 \<rparr>"
proof -
  note f = no_iterations_fields
  have "openblas_ssyev_hA counter_rng zero_garbage no_iterations =
      openblas_ssyev_hA counter_rng zero_garbage ssyev_scenario"
    by (simp add: openblas_ssyev_hA_def no_iterations_def ssyev_scenario_def cong: sum.case_cong)
  then obtain hA where hA: "openblas_ssyev_hA counter_rng zero_garbage no_iterations = Inr hA"
    using scenario_hA[of counter_rng zero_garbage] by auto
  have p: "''Performing warm-up for '' @ show_int 0 @ '' ms...'' = ''Performing warm-up for 0 ms...''"
    by (simp add: show_int_digits)
  have a: "real 0 \<le> real (Suc 0)" by simp
  show ?thesis
    unfolding bench_openblas_ssyev_def hA f p scenario_warmup[OF a] sum.case
    by (simp add: print_line_def measurement_loop_def empty_statistics show_int_digits Let_def
        no_failure_def fmt_floor_def openblas_ssyev_report_def)
qed

text \<open>
  Claim C8. With an iteration count of 0 the measurement loop records no sample and leaves
  the world as it is; the average is then \<open>0 / 0\<close>, a division by zero that no test
  guards and that raises no error: the result of the floating-point division is NaN, and
  so is the standard deviation. The OpenBLAS eigensolver benchmark run with an iteration
  count of 0 goes on to its report and prints both values.
\<close>

theorem zero_iterations_divide_by_zero:
  "snd (measurement_loop action now 0 (w, [])) = [] \<and>
   fst (measurement_loop action now 0 (w, [])) = w \<and>
   avg_time_of [] = fdiv_count (Finite 0) 0 \<and>
   avg_time_of [] = NaN \<and> std_dev_of [] = NaN \<and>
   (iterations a = 0 \<and> bench_openblas_ssyev r garbage now status fmt a w = Inr w' \<longrightarrow>
      ''Average execution time: '' @ fmt 3 NaN @ '' ms'' \<in> set (console w') \<and>
      ''Standard deviation: '' @ fmt 3 NaN @ '' ms'' \<in> set (console w'))"
proof -
  have "snd (measurement_loop action now 0 (w, [])) = [] \<and>
   fst (measurement_loop action now 0 (w, [])) = w \<and>
   avg_time_of [] = fdiv_count (Finite 0) 0 \<and>
   avg_time_of [] = NaN \<and> std_dev_of [] = NaN"
    by (simp add: measurement_loop_def avg_time_of_def std_dev_of_def)
  moreover have "iterations a = 0 \<and> bench_openblas_ssyev r garbage now status fmt a w = Inr w' \<longrightarrow>
      ''Average execution time: '' @ fmt 3 NaN @ '' ms'' \<in> set (console w') \<and>
      ''Standard deviation: '' @ fmt 3 NaN @ '' ms'' \<in> set (console w')"
    using zero_iterations_report[of a r garbage now status fmt w w'] by simp
  ultimately show ?thesis by blast
qed

theorem zero_iterations_divide_by_zero_witness:
  "iterations no_iterations = 0 \<and>
   bench_openblas_ssyev counter_rng zero_garbage real no_failure fmt_floor no_iterations start_world =
     Inr \<lparr> console =
             [''Performing warm-up for 0 ms...'', ''Completed 1 warm-up iterations in 1 ms'',
              [], ''===== Performance Results (CPU - OpenBLAS) ====='', ''Matrix size: 4 x 4'',
              ''Batch count: 1'', ''Warm-up time: 0 ms (completed 1 iterations)'',
              ''Timing iterations: 0'', ''Average execution time: nan ms'',
              ''Standard deviation: nan ms'', ''=============================================='',
              []],
           ticks = 2, reps = Suc 0 \<rparr> \<and>
   fmt_floor 3 NaN = ''nan'' \<and> avg_time_of [] = NaN \<and> std_dev_of [] = NaN"
  using zero_iterations_divide_by_zero[of "\<lambda>w. w" real start_world no_iterations
      counter_rng zero_garbage no_failure fmt_floor]
  by (simp add: no_iterations_run no_iterations_fields fmt_floor_def empty_statistics)


end
